theory Spec2Isabelle
  imports Complex_Main "HOL-Library.Log_Nat" "HOL-Library.Sublist" "HOL-Library.Multiset"
    "HOL-Library.AList"
begin

section \<open>Python numbers\<close>

text \<open>
  The monitoring scripts compute with Python \<open>int\<close> (unbounded) and \<open>float\<close> (IEEE 754
  binary64, round to nearest, ties to even). A float is modelled by the rational number
  it denotes; every float operation computes the exact rational result and rounds it to
  53 significant bits with \<open>rnd\<close>. The exponent range of binary64 is not modelled: the
  values of these scripts (weights, percentages, megabytes) stay far inside it.
\<close>

type_synonym pyfloat = rat

definition round_half_even :: "rat \<Rightarrow> int" where
  "round_half_even y =
     (let f = \<lfloor>y\<rfloor>; d = y - of_int f
      in if d < 1 / 2 then f else if 1 / 2 < d then f + 1 else if even f then f else f + 1)"

text \<open>For \<open>0 < x\<close>, the exponent \<open>e\<close> with \<open>2 powi e \<le> x < 2 powi (e + 1)\<close>.\<close>

definition floor_log2 :: "rat \<Rightarrow> int" where
  "floor_log2 x =
     (let (p, q) = quotient_of x; d = bitlen p - bitlen q
      in if 2 powi d \<le> x then d else d - 1)"

definition rnd :: "rat \<Rightarrow> pyfloat" where
  "rnd x =
     (if x = 0 then 0
      else let e = floor_log2 \<bar>x\<bar>
           in of_int (round_half_even (x * 2 powi (52 - e))) * 2 powi (e - 52))"

text \<open>\<open>a + b\<close> and \<open>a * b\<close> on floats (an \<open>int\<close> operand is converted first; the
  \<open>int\<close>s that occur here, 0 and 100, are floats exactly).\<close>

definition fadd :: "pyfloat \<Rightarrow> pyfloat \<Rightarrow> pyfloat" where
  "fadd a b = rnd (a + b)"

definition fmul :: "pyfloat \<Rightarrow> pyfloat \<Rightarrow> pyfloat" where
  "fmul a b = rnd (a * b)"

text \<open>The exceptions that occur: \<open>OSError\<close> stands for it and its subclasses
  (\<open>PermissionError\<close>, \<open>FileNotFoundError\<close>, ...).\<close>

datatype error = ZeroDivisionError | OSError | UnicodeDecodeError

text \<open>\<open>a / b\<close> on two \<open>int\<close>s: the correctly rounded quotient.\<close>

definition truediv :: "int \<Rightarrow> int \<Rightarrow> error + pyfloat" where
  "truediv a b = (if b = 0 then Inl ZeroDivisionError else Inr (rnd (of_int a / of_int b)))"

section \<open>Progress of one protein folder\<close>

text \<open>
  \<open>process_folder\<close>, lines 100 to 104 (and the loop body of the local script, lines 87
  and 88): the literal quotients \<open>1/12\<close> and \<open>9/12\<close> are floats, the conditional
  expressions are added from left to right, and the sum is multiplied by 100.
\<close>

definition one_twelfth :: pyfloat where
  "one_twelfth = rnd (1 / 12)"

definition nine_twelfths :: pyfloat where
  "nine_twelfths = rnd (9 / 12)"

definition progress_percent :: "bool \<Rightarrow> bool \<Rightarrow> bool \<Rightarrow> bool \<Rightarrow> pyfloat" where
  "progress_percent em_done nvt_done npt_done md_done =
     fmul (fadd (fadd (fadd (if em_done then one_twelfth else 0)
                            (if nvt_done then one_twelfth else 0))
                      (if npt_done then one_twelfth else 0))
                (if md_done then nine_twelfths else 0))
          100"

text \<open>
  The specification's reading of the same number: the stages are a closed set with fixed
  weights, and the progress is 100 times the sum of the weights of the completed stages.
\<close>

datatype stage = EM | NVT | NPT | MD

fun weight :: "stage \<Rightarrow> pyfloat" where
  "weight EM = one_twelfth"
| "weight NVT = one_twelfth"
| "weight NPT = one_twelfth"
| "weight MD = nine_twelfths"

fun exact_weight :: "stage \<Rightarrow> rat" where
  "exact_weight EM = 1 / 12"
| "exact_weight NVT = 1 / 12"
| "exact_weight NPT = 1 / 12"
| "exact_weight MD = 9 / 12"

definition completed_stages :: "bool \<Rightarrow> bool \<Rightarrow> bool \<Rightarrow> bool \<Rightarrow> stage list" where
  "completed_stages em_done nvt_done npt_done md_done =
     (if em_done then [EM] else []) @ (if nvt_done then [NVT] else []) @
     (if npt_done then [NPT] else []) @ (if md_done then [MD] else [])"

definition weighted_progress :: "stage list \<Rightarrow> pyfloat" where
  "weighted_progress done = fmul 100 (foldl fadd 0 (map weight done))"

section \<open>The file system and the log\<close>

text \<open>
  A path is its list of components; \<open>folder / name\<close> appends one. The scripts observe the
  file system through a few operations, and a file system is modelled by what these
  operations answer:
  \<^item> \<open>iterdir\<close>: the names of the children of a directory, or \<open>None\<close> when listing raises;
  \<^item> \<open>is_dir\<close>: whether a path is a directory; \<open>Path.is_dir\<close> answers false for a path
    that does not exist, and re-raises every other \<open>OSError\<close> of the underlying \<open>stat\<close>
    (permission denied on the parent directory, for one);
  \<^item> \<open>file_at\<close>: \<open>Missing\<close> when the path does not exist; \<open>Inaccessible\<close> when the
    \<open>stat\<close> behind the existence test fails otherwise (\<open>Path.exists\<close> re-raises it,
    \<open>os.path.exists\<close> answers false); and for a path that exists, what \<open>open\<close> and
    \<open>read\<close> give: the text, or an exception (permission, I/O, decoding, the path is a
    directory);
  \<^item> \<open>rglob\<close>: what the iterations of \<open>for f in folder.rglob('*')\<close> observe, in
    order: a regular file and its \<open>st_size\<close>; an entry that is not a file; a
    subdirectory that \<open>rglob\<close> cannot list for lack of permission, which \<open>pathlib\<close>
    passes over without raising; or an exception that reaches the loop, raised by the
    traversal, by \<open>is_file\<close> or by \<open>stat\<close>;
  \<^item> \<open>walk\<close>: for the local script, what \<open>os.path.getsize\<close> gives for each file name
    that \<open>os.walk\<close> yields, in order: the size, or an exception.
\<close>

type_synonym path = "string list"

datatype file_state = Missing | Inaccessible | Readable string | Unreadable error

datatype probe = RegularFile nat | NotFile | UnlistableDir | Fault

record filesystem =
  iterdir :: "path \<Rightarrow> string list option"
  is_dir :: "path \<Rightarrow> error + bool"
  file_at :: "path \<Rightarrow> file_state"
  rglob :: "path \<Rightarrow> probe list"
  walk :: "path \<Rightarrow> (error + nat) list"

definition path_name :: "path \<Rightarrow> string" where
  "path_name p = (if p = [] then [] else last p)"

text \<open>The records written with \<open>logging\<close>: the level and which message it is.\<close>

datatype level = INFO | WARNING | ERROR

datatype message =
    Error_reading path
  | Error_calculating_size path
  | No_protein_folders
  | Report_saved
  | Error_attaching string
  | Email_sent
  | Error_sending_email
  | Error_checking_email
  | Request_received
  | Report_sent_to_recipient

type_synonym log_record = "level \<times> message"

section \<open>Locating and inspecting protein folders\<close>

definition endswith :: "string \<Rightarrow> string \<Rightarrow> bool" where
  "endswith s suf = suffix suf s"

text \<open>
  The list comprehension of \<open>get_protein_folders\<close> calls \<open>folder.is_dir()\<close> on every
  child, in the order of the listing, and only then looks at the name; an exception of
  \<open>is_dir\<close> leaves the function.
\<close>

fun select_folders :: "filesystem \<Rightarrow> path list \<Rightarrow> error + path list" where
  "select_folders fs [] = Inr []"
| "select_folders fs (folder # children) =
     (case is_dir fs folder of
        Inl e \<Rightarrow> Inl e
      | Inr d \<Rightarrow>
          (case select_folders fs children of
             Inl e \<Rightarrow> Inl e
           | Inr folders \<Rightarrow>
               Inr (if d \<and> endswith (path_name folder) ''_MDS'' then folder # folders
                    else folders)))"

definition get_protein_folders :: "filesystem \<Rightarrow> path \<Rightarrow> error + path list" where
  "get_protein_folders fs input_dir =
     (case iterdir fs input_dir of
        None \<Rightarrow> Inl OSError
      | Some names \<Rightarrow> select_folders fs (map (\<lambda>n. input_dir @ [n]) names))"

definition finished_marker :: string where
  "finished_marker = ''Finished mdrun on rank 0''"

text \<open>\<open>m in s\<close> on strings.\<close>

fun contains :: "string \<Rightarrow> string \<Rightarrow> bool" where
  "contains m [] = (m = [])"
| "contains m (c # cs) = (prefix m (c # cs) \<or> contains m cs)"

text \<open>
  \<open>is_step_completed\<close>: \<open>log_file.exists()\<close> is called before the \<open>try\<close>, so an exception
  of the existence test leaves the function; \<open>open\<close> and \<open>read\<close> are inside the \<open>try\<close>.
  The result is the returned value or the exception, with the log records written.
\<close>

definition is_step_completed ::
  "filesystem \<Rightarrow> path \<Rightarrow> string \<Rightarrow> (error + bool) \<times> log_record list" where
  "is_step_completed fs folder log_filename =
     (let log_file = folder @ [log_filename]
      in case file_at fs log_file of
           Missing \<Rightarrow> (Inr False, [])
         | Inaccessible \<Rightarrow> (Inl OSError, [])
         | Readable log_content \<Rightarrow> (Inr (contains finished_marker log_content), [])
         | Unreadable e \<Rightarrow> (Inr False, [(ERROR, Error_reading log_file)]))"

text \<open>
  The loop of \<open>get_folder_size\<close>: the \<open>try\<close> encloses the whole \<open>for\<close> statement, so an
  exception that reaches the loop leaves it with the total reached so far. The second
  component says whether the handler ran.
\<close>

fun size_loop :: "probe list \<Rightarrow> nat \<Rightarrow> nat \<times> bool" where
  "size_loop [] total_size = (total_size, False)"
| "size_loop (RegularFile st_size # fs) total_size = size_loop fs (total_size + st_size)"
| "size_loop (NotFile # fs) total_size = size_loop fs total_size"
| "size_loop (UnlistableDir # fs) total_size = size_loop fs total_size"
| "size_loop (Fault # fs) total_size = (total_size, True)"

definition get_folder_size :: "filesystem \<Rightarrow> path \<Rightarrow> pyfloat \<times> log_record list" where
  "get_folder_size fs folder =
     (let (total_size, raised) = size_loop (rglob fs folder) 0
      in (rnd (of_nat total_size / 1024 ^ 2),
          if raised then [(ERROR, Error_calculating_size folder)] else []))"

record unit_result =
  folder_name :: string
  em_done :: bool
  nvt_done :: bool
  npt_done :: bool
  md_done :: bool
  progress :: pyfloat
  folder_size :: pyfloat

text \<open>
  \<open>process_folder\<close> has no handler: an exception of one of the four checks leaves it,
  after the log records written so far.
\<close>

definition process_folder ::
  "filesystem \<Rightarrow> path \<Rightarrow> (error + unit_result) \<times> log_record list" where
  "process_folder fs folder =
     (let (r1, log1) = is_step_completed fs folder ''EM.log''
      in case r1 of
           Inl e \<Rightarrow> (Inl e, log1)
         | Inr em \<Rightarrow>
     (let (r2, log2) = is_step_completed fs folder ''NVT.log''
      in case r2 of
           Inl e \<Rightarrow> (Inl e, log1 @ log2)
         | Inr nvt \<Rightarrow>
     (let (r3, log3) = is_step_completed fs folder ''NPT.log''
      in case r3 of
           Inl e \<Rightarrow> (Inl e, log1 @ log2 @ log3)
         | Inr npt \<Rightarrow>
     (let (r4, log4) = is_step_completed fs (folder @ [''analisis'']) ''MD.log''
      in case r4 of
           Inl e \<Rightarrow> (Inl e, log1 @ log2 @ log3 @ log4)
         | Inr md \<Rightarrow>
     (let (size, log5) = get_folder_size fs folder
      in (Inr \<lparr>folder_name = path_name folder, em_done = em, nvt_done = nvt,
                npt_done = npt, md_done = md,
                progress = progress_percent em nvt npt md, folder_size = size\<rparr>,
          log1 @ log2 @ log3 @ log4 @ log5))))))"

section \<open>The local script\<close>

text \<open>
  \<open>MD_local_progress_report.py\<close> has one check per step. Each tests the file with
  \<open>os.path.exists\<close>, which answers false whenever the \<open>stat\<close> fails, and reads it with
  no handler: an exception of \<open>open\<close> or \<open>read\<close> leaves the function. Its
  \<open>get_folder_size\<close> adds \<open>os.path.getsize\<close> of every file name that \<open>os.walk\<close> yields,
  with no handler either.
\<close>

definition is_em_completed :: "filesystem \<Rightarrow> path \<Rightarrow> error + bool" where
  "is_em_completed fs folder =
     (case file_at fs (folder @ [''EM.log'']) of
        Missing \<Rightarrow> Inr False
      | Inaccessible \<Rightarrow> Inr False
      | Readable log_content \<Rightarrow> Inr (contains finished_marker log_content)
      | Unreadable e \<Rightarrow> Inl e)"

definition is_nvt_equilibration_completed :: "filesystem \<Rightarrow> path \<Rightarrow> error + bool" where
  "is_nvt_equilibration_completed fs folder =
     (case file_at fs (folder @ [''NVT.log'']) of
        Missing \<Rightarrow> Inr False
      | Inaccessible \<Rightarrow> Inr False
      | Readable log_content \<Rightarrow> Inr (contains finished_marker log_content)
      | Unreadable e \<Rightarrow> Inl e)"

definition is_npt_equilibration_completed :: "filesystem \<Rightarrow> path \<Rightarrow> error + bool" where
  "is_npt_equilibration_completed fs folder =
     (case file_at fs (folder @ [''NPT.log'']) of
        Missing \<Rightarrow> Inr False
      | Inaccessible \<Rightarrow> Inr False
      | Readable log_content \<Rightarrow> Inr (contains finished_marker log_content)
      | Unreadable e \<Rightarrow> Inl e)"

definition is_md_simulation_completed :: "filesystem \<Rightarrow> path \<Rightarrow> error + bool" where
  "is_md_simulation_completed fs folder =
     (case file_at fs (folder @ [''analisis'', ''MD.log'']) of
        Missing \<Rightarrow> Inr False
      | Inaccessible \<Rightarrow> Inr False
      | Readable log_content \<Rightarrow> Inr (contains finished_marker log_content)
      | Unreadable e \<Rightarrow> Inl e)"

fun getsize_loop :: "(error + nat) list \<Rightarrow> nat \<Rightarrow> error + nat" where
  "getsize_loop [] total_size = Inr total_size"
| "getsize_loop (Inr st_size # fs) total_size = getsize_loop fs (total_size + st_size)"
| "getsize_loop (Inl e # fs) total_size = Inl e"

definition get_folder_size_local :: "filesystem \<Rightarrow> path \<Rightarrow> error + pyfloat" where
  "get_folder_size_local fs folder =
     (case getsize_loop (walk fs folder) 0 of
        Inl e \<Rightarrow> Inl e
      | Inr total_size \<Rightarrow> Inr (rnd (of_nat total_size / 1024 ^ 2)))"

section \<open>The worker pool\<close>

text \<open>
  \<open>list(executor.map(f, xs))\<close> submits one task per element and yields the results in
  the order of submission, whatever the order in which the workers finish; where a task
  raised, its exception is raised in its place, so the first exception in the order of
  submission leaves the call. A schedule is any list of task indices;
  \<open>completion_order\<close> reads it as the order in which the tasks finish (every task
  finishes exactly once: indices out of range and repetitions are dropped, tasks the
  schedule does not mention finish last). The log records of the tasks appear in the
  order of completion; the pool is shut down on leaving the \<open>with\<close> statement, after all
  tasks have finished.
\<close>

definition completion_order :: "nat \<Rightarrow> nat list \<Rightarrow> nat list" where
  "completion_order n sched =
     remdups (filter (\<lambda>i. i < n) sched) @ filter (\<lambda>i. i \<notin> set sched) [0..<n]"

fun collect_results :: "(error + 'b) list \<Rightarrow> error + 'b list" where
  "collect_results [] = Inr []"
| "collect_results (Inl e # rs) = Inl e"
| "collect_results (Inr r # rs) =
     (case collect_results rs of Inl e \<Rightarrow> Inl e | Inr vs \<Rightarrow> Inr (r # vs))"

definition executor_map ::
  "nat list \<Rightarrow> ('a \<Rightarrow> (error + 'b) \<times> log_record list) \<Rightarrow> 'a list
     \<Rightarrow> (error + 'b list) \<times> log_record list" where
  "executor_map sched f xs =
     (let finished = map (\<lambda>i. (i, f (xs ! i))) (completion_order (length xs) sched)
      in (collect_results (map (\<lambda>(i, r). fst r) (sort_key fst finished)),
          concat (map (\<lambda>(i, r). snd r) finished)))"

text \<open>
  The sequential reading: the loop \<open>for folder in protein_folders\<close>, which an exception
  leaves at once.
\<close>

fun sequential_map ::
  "('a \<Rightarrow> (error + 'b) \<times> log_record list) \<Rightarrow> 'a list
     \<Rightarrow> (error + 'b list) \<times> log_record list" where
  "sequential_map f [] = (Inr [], [])"
| "sequential_map f (x # xs) =
     (let (r, l) = f x
      in case r of
           Inl e \<Rightarrow> (Inl e, l)
         | Inr v \<Rightarrow>
             (let (rs, ls) = sequential_map f xs
              in (case rs of Inl e \<Rightarrow> Inl e | Inr vs \<Rightarrow> Inr (v # vs), l @ ls)))"

section \<open>Aggregation, report and plots\<close>

text \<open>
  The loop over the results fills four lists of names and two dictionaries keyed by the
  folder name. A dictionary keeps its keys in the order of first insertion and an
  assignment to an existing key replaces the value in place, which is what
  \<open>AList.update\<close> does on an association list.
\<close>

record tally =
  em_completed :: "string list"
  nvt_completed :: "string list"
  npt_completed :: "string list"
  md_completed :: "string list"
  protein_progress :: "(string \<times> pyfloat) list"
  folder_sizes :: "(string \<times> pyfloat) list"

definition empty_tally :: tally where
  "empty_tally = \<lparr>em_completed = [], nvt_completed = [], npt_completed = [],
     md_completed = [], protein_progress = [], folder_sizes = []\<rparr>"

definition collect :: "tally \<Rightarrow> unit_result \<Rightarrow> tally" where
  "collect t r =
     \<lparr>em_completed = (if em_done r then em_completed t @ [folder_name r] else em_completed t),
      nvt_completed = (if nvt_done r then nvt_completed t @ [folder_name r] else nvt_completed t),
      npt_completed = (if npt_done r then npt_completed t @ [folder_name r] else npt_completed t),
      md_completed = (if md_done r then md_completed t @ [folder_name r] else md_completed t),
      protein_progress = AList.update (folder_name r) (progress r) (protein_progress t),
      folder_sizes = AList.update (folder_name r) (folder_size r) (folder_sizes t)\<rparr>"

text \<open>\<open>(len(completed) / total_proteins) * 100\<close>.\<close>

definition percentage :: "nat \<Rightarrow> nat \<Rightarrow> error + pyfloat" where
  "percentage completed total_proteins =
     (case truediv (int completed) (int total_proteins) of
        Inl e \<Rightarrow> Inl e
      | Inr q \<Rightarrow> Inr (fmul q 100))"

text \<open>
  The text report holds the total, for each step (EM, NVT, NPT, MD in this order) the
  number of folders that completed it and the percentage, and the names of these
  folders. Its layout and its time stamp are not modelled, nor is the rendering of the
  plots: a plot is the series handed to \<open>matplotlib\<close>.
\<close>

record report =
  total :: nat
  step_lines :: "(nat \<times> pyfloat) list"
  step_names :: "string list list"

datatype artifact =
    Global_progress_png "pyfloat list"
  | Progress_per_protein_png "(string \<times> pyfloat) list"
  | Storage_per_protein_png "(string \<times> pyfloat) list"
  | Complete_monitoring_report_txt report

fun artifact_file :: "artifact \<Rightarrow> string" where
  "artifact_file (Global_progress_png _) = ''global_progress.png''"
| "artifact_file (Progress_per_protein_png _) = ''progress_per_protein.png''"
| "artifact_file (Storage_per_protein_png _) = ''storage_per_protein.png''"
| "artifact_file (Complete_monitoring_report_txt _) = ''complete_monitoring_report.txt''"

text \<open>Everything after the worker pool, up to the creation of the output directory.\<close>

definition aggregate :: "unit_result list \<Rightarrow> nat \<Rightarrow> error + artifact list" where
  "aggregate results total_proteins =
     (let t = foldl collect empty_tally results
      in case percentage (length (em_completed t)) total_proteins of
           Inl e \<Rightarrow> Inl e
         | Inr em_percentage \<Rightarrow>
      (case percentage (length (nvt_completed t)) total_proteins of
           Inl e \<Rightarrow> Inl e
         | Inr nvt_percentage \<Rightarrow>
      (case percentage (length (npt_completed t)) total_proteins of
           Inl e \<Rightarrow> Inl e
         | Inr npt_percentage \<Rightarrow>
      (case percentage (length (md_completed t)) total_proteins of
           Inl e \<Rightarrow> Inl e
         | Inr md_percentage \<Rightarrow>
             Inr [Global_progress_png
                    [em_percentage, nvt_percentage, npt_percentage, md_percentage],
                  Progress_per_protein_png (sort_key snd (protein_progress t)),
                  Storage_per_protein_png (sort_key snd (folder_sizes t)),
                  Complete_monitoring_report_txt
                    \<lparr>total = total_proteins,
                     step_lines =
                       [(length (em_completed t), em_percentage),
                        (length (nvt_completed t), nvt_percentage),
                        (length (npt_completed t), npt_percentage),
                        (length (md_completed t), md_percentage)],
                     step_names =
                       [em_completed t, nvt_completed t, npt_completed t,
                        md_completed t]\<rparr>]))))"

text \<open>
  What one run of the pipeline meets: the file system under the input directory,
  whether the output directory can be created and written, the files of earlier runs
  that are in the output directory and can be read, whether the SMTP server accepts the
  message, and the schedule of the worker pool.
\<close>

record world =
  files :: filesystem
  output_writable :: bool
  stale :: "string list"
  smtp_ok :: bool
  completion :: "nat list"

record gen_result =
  gen_log :: "log_record list"
  gen_written :: "artifact list"
  gen_raised :: "error option"

definition generate_monitoring_report_and_plots :: "world \<Rightarrow> path \<Rightarrow> gen_result" where
  "generate_monitoring_report_and_plots w input_dir =
     (case get_protein_folders (files w) input_dir of
        Inl e \<Rightarrow> \<lparr>gen_log = [], gen_written = [], gen_raised = Some e\<rparr>
      | Inr protein_folders \<Rightarrow>
          (let total_proteins = length protein_folders
           in if total_proteins = 0
              then \<lparr>gen_log = [(WARNING, No_protein_folders)], gen_written = [],
                     gen_raised = None\<rparr>
              else
                (let (outcome, pool_log) =
                       executor_map (completion w) (process_folder (files w)) protein_folders
                 in case outcome of
                      Inl e \<Rightarrow> \<lparr>gen_log = pool_log, gen_written = [], gen_raised = Some e\<rparr>
                    | Inr results \<Rightarrow>
                 (case aggregate results total_proteins of
                      Inl e \<Rightarrow> \<lparr>gen_log = pool_log, gen_written = [], gen_raised = Some e\<rparr>
                    | Inr artifacts \<Rightarrow>
                        if output_writable w
                        then \<lparr>gen_log = pool_log @ [(INFO, Report_saved)],
                               gen_written = artifacts, gen_raised = None\<rparr>
                        else \<lparr>gen_log = pool_log, gen_written = [],
                               gen_raised = Some OSError\<rparr>))))"

section \<open>Notification and the job\<close>

text \<open>
  \<open>send_email_report\<close>: each attachment is read inside its own \<open>try\<close>; a file that cannot
  be read is logged and left out. Sending is inside a \<open>try\<close> as well. The result is the
  list of the attached file names of the message that was sent, or \<open>None\<close> when no
  message was sent.
\<close>

fun attach :: "string list \<Rightarrow> string list \<Rightarrow> string list \<times> log_record list" where
  "attach present [] = ([], [])"
| "attach present (file # attachments) =
     (let (attached, l) = attach present attachments
      in if file \<in> set present then (file # attached, l)
         else (attached, (ERROR, Error_attaching file) # l))"

definition send_email_report ::
  "world \<Rightarrow> string list \<Rightarrow> string list \<Rightarrow> string list option \<times> log_record list" where
  "send_email_report w present attachments =
     (let (attached, l) = attach present attachments
      in if smtp_ok w then (Some attached, l @ [(INFO, Email_sent)])
         else (None, l @ [(ERROR, Error_sending_email)]))"

record job_result =
  job_log :: "log_record list"
  job_written :: "artifact list"
  job_email :: "string list option"
  job_raised :: "error option"

definition job :: "world \<Rightarrow> path \<Rightarrow> job_result" where
  "job w input_dir =
     (let g = generate_monitoring_report_and_plots w input_dir
      in case gen_raised g of
           Some e \<Rightarrow> \<lparr>job_log = gen_log g, job_written = gen_written g, job_email = None,
                       job_raised = Some e\<rparr>
         | None \<Rightarrow>
             (let attachments = [''complete_monitoring_report.txt'', ''global_progress.png'',
                                 ''progress_per_protein.png'', ''storage_per_protein.png''];
                  present = stale w @ map artifact_file (gen_written g);
                  (email, l) = send_email_report w present attachments
              in \<lparr>job_log = gen_log g @ l @ [(INFO, Report_sent_to_recipient)],
                   job_written = gen_written g, job_email = email, job_raised = None\<rparr>))"

section \<open>The loop of main\<close>

text \<open>
  \<open>check_email_for_request\<close> answers whether an unread request is in the inbox; every
  exception of the IMAP conversation is caught, logged and answered with \<open>False\<close>.
\<close>

datatype inbox = Request_pending | No_request | Imap_fault

fun check_email_for_request :: "inbox \<Rightarrow> bool \<times> log_record list" where
  "check_email_for_request Request_pending = (True, [])"
| "check_email_for_request No_request = (False, [])"
| "check_email_for_request Imap_fault = (False, [(ERROR, Error_checking_email)])"

text \<open>
  The \<open>schedule\<close> library keeps for the one periodic job the time of its next run
  (seconds on the clock). \<open>run_pending\<close> runs the job when the clock has reached that
  time, and afterwards sets the next run one interval after the clock reading taken when
  the job returned. It has no handler: an exception of the job leaves \<open>run_pending\<close>.
\<close>

record args =
  input_dir :: path
  interval_hours :: int

record schedule_state =
  next_run :: int

record tick_input =
  mailbox :: inbox
  env_request :: world
  env_schedule :: world
  now :: int
  after_job :: int

definition should_run :: "schedule_state \<Rightarrow> tick_input \<Rightarrow> bool" where
  "should_run st inp = (next_run st \<le> now inp)"

definition run_pending ::
  "args \<Rightarrow> schedule_state \<Rightarrow> tick_input \<Rightarrow> job_result list \<times> (error + schedule_state)" where
  "run_pending a st inp =
     (if should_run st inp
      then (let j = job (env_schedule inp) (input_dir a)
            in case job_raised j of
                 Some e \<Rightarrow> ([j], Inl e)
               | None \<Rightarrow> ([j], Inr (st\<lparr>next_run := after_job inp + interval_hours a * 3600\<rparr>)))
      else ([], Inr st))"

text \<open>
  One iteration of \<open>while True\<close>. \<open>tick_runs\<close> are the runs of \<open>job\<close> of this iteration,
  in order; \<open>tick_next\<close> is the state with which the next iteration starts (after the
  sleep), or the exception that left the loop and ended \<open>main\<close>.
\<close>

record tick_result =
  tick_log :: "log_record list"
  tick_runs :: "job_result list"
  tick_next :: "error + schedule_state"

definition tick :: "args \<Rightarrow> schedule_state \<Rightarrow> tick_input \<Rightarrow> tick_result" where
  "tick a st inp =
     (let (requested, l) = check_email_for_request (mailbox inp)
      in if requested
         then (let j = job (env_request inp) (input_dir a)
               in case job_raised j of
                    Some e \<Rightarrow> \<lparr>tick_log = l @ [(INFO, Request_received)], tick_runs = [j],
                                tick_next = Inl e\<rparr>
                  | None \<Rightarrow>
                      (let (js, nxt) = run_pending a st inp
                       in \<lparr>tick_log = l @ [(INFO, Request_received)], tick_runs = j # js,
                            tick_next = nxt\<rparr>))
         else (let (js, nxt) = run_pending a st inp
               in \<lparr>tick_log = l, tick_runs = js, tick_next = nxt\<rparr>))"

text \<open>The loop on a finite sequence of iterations: it stops where an exception leaves it.\<close>

fun main_loop :: "args \<Rightarrow> schedule_state \<Rightarrow> tick_input list \<Rightarrow> tick_result list" where
  "main_loop a st [] = []"
| "main_loop a st (inp # inps) =
     (let r = tick a st inp
      in r # (case tick_next r of Inl e \<Rightarrow> [] | Inr st' \<Rightarrow> main_loop a st' inps))"

section \<open>Example inputs\<close>

text \<open>
  An input directory \<open>sims\<close> with two protein folders, a directory whose name does not
  end with the suffix, and a plain file whose name does. In \<open>A_MDS\<close>, EM and NVT are
  finished, \<open>NPT.log\<close> cannot be read, there is an \<open>analysis/MD.log\<close> with the marker
  but no \<open>analisis/MD.log\<close>, and the traversal meets a file of 1 MiB, then an exception,
  then would meet another file of 1 MiB. In \<open>B_MDS\<close> all four steps are finished, and
  the traversal passes over a subdirectory that it may not list.
\<close>

definition demo_fs :: filesystem where
  "demo_fs =
     \<lparr>iterdir = (\<lambda>p. if p = [''sims'']
                      then Some [''A_MDS'', ''Foo_MDX'', ''Bar_MDS'', ''B_MDS''] else None),
      is_dir = (\<lambda>p. Inr (p = [''sims''] \<or> p = [''sims'', ''A_MDS'']
                    \<or> p = [''sims'', ''Foo_MDX''] \<or> p = [''sims'', ''B_MDS''])),
      file_at = (\<lambda>p.
         if p = [''sims'', ''A_MDS'', ''EM.log'']
           then Readable ''step 100 Finished mdrun on rank 0 bye''
         else if p = [''sims'', ''A_MDS'', ''NVT.log''] then Readable ''Finished mdrun on rank 0''
         else if p = [''sims'', ''A_MDS'', ''NPT.log''] then Unreadable OSError
         else if p = [''sims'', ''A_MDS'', ''analysis'', ''MD.log'']
           then Readable ''Finished mdrun on rank 0''
         else if p = [''sims'', ''B_MDS'', ''EM.log''] then Readable ''Finished mdrun on rank 0''
         else if p = [''sims'', ''B_MDS'', ''NVT.log''] then Readable ''Finished mdrun on rank 0''
         else if p = [''sims'', ''B_MDS'', ''NPT.log''] then Readable ''Finished mdrun on rank 0''
         else if p = [''sims'', ''B_MDS'', ''analisis'', ''MD.log'']
           then Readable ''Finished mdrun on rank 0''
         else if p = [''sims'', ''Bar_MDS''] then Readable ''not a folder''
         else Missing),
      rglob = (\<lambda>p.
         if p = [''sims'', ''A_MDS'']
           then [RegularFile 1048576, Fault, RegularFile 1048576]
         else if p = [''sims'', ''B_MDS''] then [UnlistableDir, RegularFile 524288]
         else []),
      walk = (\<lambda>p.
         if p = [''sims'', ''A_MDS''] then [Inr 1048576, Inl OSError, Inr 1048576]
         else if p = [''sims'', ''B_MDS''] then [Inr 524288]
         else [])\<rparr>"

text \<open>What \<open>process_folder\<close> returns for the two protein folders of \<open>demo_fs\<close>.\<close>

definition demo_A_result :: unit_result where
  "demo_A_result = \<lparr>folder_name = ''A_MDS'', em_done = True, nvt_done = True,
     npt_done = False, md_done = False, progress = 18764998447377064 / 2 ^ 50,
     folder_size = 1\<rparr>"

definition demo_B_result :: unit_result where
  "demo_B_result = \<lparr>folder_name = ''B_MDS'', em_done = True, nvt_done = True,
     npt_done = True, md_done = True, progress = 100, folder_size = 1 / 2\<rparr>"

definition demo_world :: world where
  "demo_world = \<lparr>files = demo_fs, output_writable = True, stale = [], smtp_ok = True,
     completion = [1, 0]\<rparr>"

text \<open>
  An input directory that may be listed but not searched: it has one child, a plain file
  \<open>notes.txt\<close>, and every \<open>stat\<close> below it fails with permission denied.
\<close>

definition locked_fs :: filesystem where
  "locked_fs =
     \<lparr>iterdir = (\<lambda>p. if p = [''sims''] then Some [''notes.txt''] else None),
      is_dir = (\<lambda>p. if p = [''sims''] then Inr True else Inl OSError),
      file_at = (\<lambda>p. Inaccessible),
      rglob = (\<lambda>p. []),
      walk = (\<lambda>p. [])\<rparr>"

text \<open>An input directory without protein folders; one plot of an earlier run is left.\<close>

definition no_units_world :: world where
  "no_units_world =
     \<lparr>files = \<lparr>iterdir = (\<lambda>p. if p = [''sims''] then Some [''notes.txt''] else None),
                is_dir = (\<lambda>p. Inr (p = [''sims''])),
                file_at = (\<lambda>p. if p = [''sims'', ''notes.txt''] then Readable ''todo''
                                else Missing),
                rglob = (\<lambda>p. []), walk = (\<lambda>p. [])\<rparr>,
      output_writable = True, stale = [''global_progress.png''], smtp_ok = True,
      completion = []\<rparr>"

text \<open>An input directory that cannot be listed (removed, or no permission).\<close>

definition unlistable_world :: world where
  "unlistable_world =
     \<lparr>files = \<lparr>iterdir = (\<lambda>p. None), is_dir = (\<lambda>p. Inr False), file_at = (\<lambda>p. Missing),
                rglob = (\<lambda>p. []), walk = (\<lambda>p. [])\<rparr>,
      output_writable = True, stale = [], smtp_ok = True, completion = []\<rparr>"

definition demo_args :: args where
  "demo_args = \<lparr>input_dir = [''sims''], interval_hours = 6\<rparr>"

text \<open>\<open>schedule.every(6).hours.do(job)\<close> at clock 0.\<close>

definition demo_state :: schedule_state where
  "demo_state = \<lparr>next_run = 21600\<rparr>"

text \<open>
  Iterations of the loop. \<open>both_due\<close>: a request is pending and the clock has reached the
  next scheduled run. \<open>request_unlistable\<close> and \<open>request_unwritable\<close>: a request is
  pending, and the input directory cannot be listed, or the output directory cannot be
  written. \<open>request_notification_faults\<close>: a request is pending, there is no protein
  folder, so that three of the four attachments do not exist, and the SMTP server
  refuses.
\<close>

definition both_due :: tick_input where
  "both_due = \<lparr>mailbox = Request_pending, env_request = demo_world,
     env_schedule = demo_world, now = 21600, after_job = 21660\<rparr>"

definition request_unlistable :: tick_input where
  "request_unlistable = \<lparr>mailbox = Request_pending, env_request = unlistable_world,
     env_schedule = demo_world, now = 60, after_job = 60\<rparr>"

definition request_unwritable :: tick_input where
  "request_unwritable = \<lparr>mailbox = Request_pending,
     env_request = demo_world\<lparr>output_writable := False\<rparr>,
     env_schedule = demo_world, now = 60, after_job = 60\<rparr>"

definition request_notification_faults :: tick_input where
  "request_notification_faults = \<lparr>mailbox = Request_pending,
     env_request = no_units_world\<lparr>smtp_ok := False\<rparr>,
     env_schedule = demo_world, now = 60, after_job = 60\<rparr>"

text \<open>
  The spec's reading of the size of a folder: every regular file that can be read is
  counted, an entry with a fault counts zero.
\<close>

fun readable_bytes :: "probe list \<Rightarrow> nat" where
  "readable_bytes [] = 0"
| "readable_bytes (RegularFile st_size # ps) = st_size + readable_bytes ps"
| "readable_bytes (NotFile # ps) = readable_bytes ps"
| "readable_bytes (UnlistableDir # ps) = readable_bytes ps"
| "readable_bytes (Fault # ps) = readable_bytes ps"

section \<open>Float facts and the sixteen cases of the progress\<close>



lemma progress_percent_table:
  "progress_percent False False False False = 0"
  "progress_percent False False False True = 75"
  "progress_percent False False True False = 9382499223688532 / 2 ^ 50"
  "progress_percent False False True True = 93824992236885344 / 2 ^ 50"
  "progress_percent False True False False = 9382499223688532 / 2 ^ 50"
  "progress_percent False True False True = 93824992236885344 / 2 ^ 50"
  "progress_percent False True True False = 18764998447377064 / 2 ^ 50"
  "progress_percent False True True True = 103207491460573856 / 2 ^ 50"
  "progress_percent True False False False = 9382499223688532 / 2 ^ 50"
  "progress_percent True False False True = 93824992236885344 / 2 ^ 50"
  "progress_percent True False True False = 18764998447377064 / 2 ^ 50"
  "progress_percent True False True True = 103207491460573856 / 2 ^ 50"
  "progress_percent True True False False = 18764998447377064 / 2 ^ 50"
  "progress_percent True True False True = 103207491460573856 / 2 ^ 50"
  "progress_percent True True True False = 25"
  "progress_percent True True True True = 100"
  by code_simp+

lemma weighted_progress_table:
  "weighted_progress (completed_stages False False False False) = 0"
  "weighted_progress (completed_stages False False False True) = 75"
  "weighted_progress (completed_stages False False True False) = 9382499223688532 / 2 ^ 50"
  "weighted_progress (completed_stages False False True True) = 93824992236885344 / 2 ^ 50"
  "weighted_progress (completed_stages False True False False) = 9382499223688532 / 2 ^ 50"
  "weighted_progress (completed_stages False True False True) = 93824992236885344 / 2 ^ 50"
  "weighted_progress (completed_stages False True True False) = 18764998447377064 / 2 ^ 50"
  "weighted_progress (completed_stages False True True True) = 103207491460573856 / 2 ^ 50"
  "weighted_progress (completed_stages True False False False) = 9382499223688532 / 2 ^ 50"
  "weighted_progress (completed_stages True False False True) = 93824992236885344 / 2 ^ 50"
  "weighted_progress (completed_stages True False True False) = 18764998447377064 / 2 ^ 50"
  "weighted_progress (completed_stages True False True True) = 103207491460573856 / 2 ^ 50"
  "weighted_progress (completed_stages True True False False) = 18764998447377064 / 2 ^ 50"
  "weighted_progress (completed_stages True True False True) = 103207491460573856 / 2 ^ 50"
  "weighted_progress (completed_stages True True True False) = 25"
  "weighted_progress (completed_stages True True True True) = 100"
  by code_simp+

lemma exact_progress_table:
  "100 * sum_list (map exact_weight (completed_stages a b c d)) =
     (if a then 25 / 3 else 0) + (if b then 25 / 3 else 0) + (if c then 25 / 3 else 0) +
     (if d then 75 else 0)"
  by (simp add: completed_stages_def)

lemma progress_percent_weighted:
  "progress_percent a b c d = weighted_progress (completed_stages a b c d)"
  by (cases a; cases b; cases c; cases d; simp only: progress_percent_table weighted_progress_table)

lemma progress_percent_range: "0 \<le> progress_percent a b c d \<and> progress_percent a b c d \<le> 100"
  by (cases a; cases b; cases c; cases d; simp add: progress_percent_table)

lemma progress_percent_close:
  "\<bar>progress_percent a b c d - 100 * sum_list (map exact_weight (completed_stages a b c d))\<bar>
     \<le> 1 / 2 ^ 46"
  unfolding exact_progress_table
  by (cases a; cases b; cases c; cases d; simp add: progress_percent_table)



lemma progress_percent_exact_iff:
  "progress_percent a b c d = 100 * sum_list (map exact_weight (completed_stages a b c d))
     \<longleftrightarrow> (a = b \<and> b = c)"
  unfolding exact_progress_table
  by (cases a; cases b; cases c; cases d; simp add: progress_percent_table)



lemma process_folder_returns:
  "fst (process_folder fs folder) = Inr r \<Longrightarrow>
     fst (is_step_completed fs folder ''EM.log'') = Inr (em_done r)
   \<and> fst (is_step_completed fs folder ''NVT.log'') = Inr (nvt_done r)
   \<and> fst (is_step_completed fs folder ''NPT.log'') = Inr (npt_done r)
   \<and> fst (is_step_completed fs (folder @ [''analisis'']) ''MD.log'') = Inr (md_done r)
   \<and> progress r = progress_percent (em_done r) (nvt_done r) (npt_done r) (md_done r)
   \<and> folder_size r = fst (get_folder_size fs folder)
   \<and> folder_name r = path_name folder"
  by (auto simp: process_folder_def Let_def case_prod_beta split: sum.splits)

lemma rnd_small: "rnd 1 = 1" "rnd 2 = 2" "rnd (1 / 2) = 1 / 2"
  by code_simp+

lemma demo_A:
  "process_folder demo_fs [''sims'', ''A_MDS''] =
     (Inr demo_A_result, [(ERROR, Error_reading [''sims'', ''A_MDS'', ''NPT.log'']),
                          (ERROR, Error_calculating_size [''sims'', ''A_MDS''])])"
  by (simp add: process_folder_def is_step_completed_def get_folder_size_def demo_fs_def
      finished_marker_def path_name_def demo_A_result_def progress_percent_table rnd_small)

lemma demo_B:
  "process_folder demo_fs [''sims'', ''B_MDS''] = (Inr demo_B_result, [])"
  by (simp add: process_folder_def is_step_completed_def get_folder_size_def demo_fs_def
      finished_marker_def path_name_def demo_B_result_def progress_percent_table rnd_small)

text \<open>
  C1 as stated: the progress equals exactly 100 times the sum of the weights 1/12, 1/12,
  1/12, 9/12 of the completed steps. In the example folder \<open>A_MDS\<close>, EM and NVT are
  done: the sum of the weights is 1/6 and 100 times it is 50/3, which no float is; the
  code returns the float 16.666666666666664.
\<close>

theorem process_folder_progress_counterexample:
  "fst (process_folder demo_fs [''sims'', ''A_MDS'']) = Inr demo_A_result
   \<and> completed_stages (em_done demo_A_result) (nvt_done demo_A_result)
        (npt_done demo_A_result) (md_done demo_A_result) = [EM, NVT]
   \<and> progress demo_A_result = 18764998447377064 / 2 ^ 50
   \<and> 100 * sum_list (map exact_weight [EM, NVT]) = 50 / 3
   \<and> progress demo_A_result \<noteq> 100 * sum_list (map exact_weight [EM, NVT])"
  by (simp add: demo_A) (simp add: demo_A_result_def completed_stages_def)

text \<open>
  C1, amended. For every folder for which \<open>process_folder\<close> returns, the progress is the
  float product of 100 and the float sum, in the order EM, NVT, NPT, MD, of the float
  weights (\<open>1/12\<close>, \<open>1/12\<close>, \<open>1/12\<close>, \<open>9/12\<close>) of the steps whose checks returned
  true; it lies between 0 and 100; it differs from 100 times the sum of the exact weights
  by at most \<open>2^-46\<close>, and equals it exactly when the checks of EM, NVT and NPT agree:
  in particular EM, NVT and NPT without MD give 25.0, MD alone gives 75.0, all four give
  100.0 and none gives 0.0.
\<close>

theorem process_folder_progress_weighted:
  "fst (process_folder fs folder) = Inr r \<Longrightarrow>
     progress r = progress_percent (em_done r) (nvt_done r) (npt_done r) (md_done r)
   \<and> progress r =
       weighted_progress (completed_stages (em_done r) (nvt_done r) (npt_done r) (md_done r))
   \<and> 0 \<le> progress r \<and> progress r \<le> 100
   \<and> \<bar>progress r - 100 * sum_list (map exact_weight
         (completed_stages (em_done r) (nvt_done r) (npt_done r) (md_done r)))\<bar> \<le> 1 / 2 ^ 46
   \<and> (progress r = 100 * sum_list (map exact_weight
         (completed_stages (em_done r) (nvt_done r) (npt_done r) (md_done r)))
       \<longleftrightarrow> (em_done r = nvt_done r \<and> nvt_done r = npt_done r))
   \<and> progress_percent True True True False = 25
   \<and> progress_percent False False False True = 75
   \<and> progress_percent True True True True = 100
   \<and> progress_percent False False False False = 0"
proof -
  assume "fst (process_folder fs folder) = Inr r"
  then have p: "progress r =
      progress_percent (em_done r) (nvt_done r) (npt_done r) (md_done r)"
    using process_folder_returns by blast
  show ?thesis
    unfolding p
    by (intro conjI refl progress_percent_weighted progress_percent_close
        progress_percent_exact_iff progress_percent_table
        conjunct1 [OF progress_percent_range] conjunct2 [OF progress_percent_range])
qed

theorem process_folder_progress_weighted_witness:
  "fst (process_folder demo_fs [''sims'', ''B_MDS'']) = Inr demo_B_result
   \<and> progress demo_B_result = weighted_progress [EM, NVT, NPT, MD]
   \<and> progress demo_B_result = 100 * sum_list (map exact_weight [EM, NVT, NPT, MD])"
proof -
  have h: "fst (process_folder demo_fs [''sims'', ''B_MDS'']) = Inr demo_B_result"
    by (simp add: demo_B)
  have c: "completed_stages (em_done demo_B_result) (nvt_done demo_B_result)
      (npt_done demo_B_result) (md_done demo_B_result) = [EM, NVT, NPT, MD]"
    by (simp add: demo_B_result_def completed_stages_def)
  from process_folder_progress_weighted [OF h] h c show ?thesis
    by (simp add: demo_B_result_def)
qed



section \<open>The completion check\<close>

lemma contains_iff: "contains m s \<longleftrightarrow> (\<exists>pre post. s = pre @ m @ post)"
proof (induction s)
  case Nil
  then show ?case by auto
next
  case (Cons c cs)
  show ?case
  proof
    assume "contains m (c # cs)"
    then consider "prefix m (c # cs)" | "contains m cs" by auto
    then show "\<exists>pre post. c # cs = pre @ m @ post"
    proof cases
      case 1
      then obtain post where "c # cs = m @ post" by (auto simp: prefix_def)
      then have "c # cs = [] @ m @ post" by simp
      then show ?thesis by blast
    next
      case 2
      with Cons.IH obtain pre post where "cs = pre @ m @ post" by blast
      then have "c # cs = (c # pre) @ m @ post" by simp
      then show ?thesis by blast
    qed
  next
    assume "\<exists>pre post. c # cs = pre @ m @ post"
    then obtain pre post where eq: "c # cs = pre @ m @ post" by blast
    show "contains m (c # cs)"
    proof (cases pre)
      case Nil
      with eq have "prefix m (c # cs)" by (simp add: prefix_def)
      then show ?thesis by simp
    next
      case (Cons p ps)
      with eq have "cs = ps @ m @ post" by simp
      with Cons.IH have "contains m cs" by blast
      then show ?thesis by simp
    qed
  qed
qed

text \<open>
  C6 as stated: for every folder and step the check returns, and a read failure never
  reaches the caller. Where the \<open>stat\<close> behind \<open>log_file.exists()\<close> is denied, as under
  the directory of \<open>locked_fs\<close>, \<open>is_step_completed\<close> raises; and the check of the local
  script raises on \<open>NPT.log\<close> of \<open>A_MDS\<close>, which cannot be read.
\<close>

theorem is_step_completed_counterexample:
  "fst (is_step_completed locked_fs [''sims'', ''C_MDS''] ''EM.log'') = Inl OSError
   \<and> file_at demo_fs [''sims'', ''A_MDS'', ''NPT.log''] = Unreadable OSError
   \<and> is_npt_equilibration_completed demo_fs [''sims'', ''A_MDS''] = Inl OSError"
  by (simp add: is_step_completed_def locked_fs_def is_npt_equilibration_completed_def
      demo_fs_def)

text \<open>
  C6, amended. Whenever the existence test on the log file answers, \<open>is_step_completed\<close>
  of the monitoring scripts returns true iff the file exists, can be read, and its
  contents contain the substring \<open>Finished mdrun on rank 0\<close>; a missing file gives false
  and no log record; a failure of \<open>open\<close> or \<open>read\<close> (permission, I/O, decoding) is
  caught, logged as one error record, and gives false. The four checks of the local
  script give the same truth value for a file that is missing or can be read, and have no
  handler: a read failure there reaches the caller.
\<close>

theorem is_step_completed_marker:
  "(file_at fs (folder @ [log_filename]) \<noteq> Inaccessible \<longrightarrow>
      is_step_completed fs folder log_filename =
        (Inr (\<exists>log_content pre post.
                file_at fs (folder @ [log_filename]) = Readable log_content
                \<and> log_content = pre @ ''Finished mdrun on rank 0'' @ post),
         if \<exists>e. file_at fs (folder @ [log_filename]) = Unreadable e
         then [(ERROR, Error_reading (folder @ [log_filename]))] else []))
   \<and> (file_at fs (folder @ [log_filename]) = Missing \<longrightarrow>
        is_step_completed fs folder log_filename = (Inr False, []))
   \<and> is_em_completed fs folder =
       (case file_at fs (folder @ [''EM.log'']) of
          Unreadable e \<Rightarrow> Inl e
        | Readable log_content \<Rightarrow>
            Inr (\<exists>pre post. log_content = pre @ ''Finished mdrun on rank 0'' @ post)
        | _ \<Rightarrow> Inr False)
   \<and> is_nvt_equilibration_completed fs folder =
       (case file_at fs (folder @ [''NVT.log'']) of
          Unreadable e \<Rightarrow> Inl e
        | Readable log_content \<Rightarrow>
            Inr (\<exists>pre post. log_content = pre @ ''Finished mdrun on rank 0'' @ post)
        | _ \<Rightarrow> Inr False)
   \<and> is_npt_equilibration_completed fs folder =
       (case file_at fs (folder @ [''NPT.log'']) of
          Unreadable e \<Rightarrow> Inl e
        | Readable log_content \<Rightarrow>
            Inr (\<exists>pre post. log_content = pre @ ''Finished mdrun on rank 0'' @ post)
        | _ \<Rightarrow> Inr False)
   \<and> is_md_simulation_completed fs folder =
       (case file_at fs (folder @ [''analisis'', ''MD.log'']) of
          Unreadable e \<Rightarrow> Inl e
        | Readable log_content \<Rightarrow>
            Inr (\<exists>pre post. log_content = pre @ ''Finished mdrun on rank 0'' @ post)
        | _ \<Rightarrow> Inr False)"
proof -
  have v2: "file_at fs (folder @ [log_filename]) \<noteq> Inaccessible \<longrightarrow>
      is_step_completed fs folder log_filename =
        (Inr (\<exists>log_content pre post.
                file_at fs (folder @ [log_filename]) = Readable log_content
                \<and> log_content = pre @ ''Finished mdrun on rank 0'' @ post),
         if \<exists>e. file_at fs (folder @ [log_filename]) = Unreadable e
         then [(ERROR, Error_reading (folder @ [log_filename]))] else [])"
    by (cases "file_at fs (folder @ [log_filename])")
       (simp_all add: is_step_completed_def contains_iff finished_marker_def)
  have missing: "file_at fs (folder @ [log_filename]) = Missing \<longrightarrow>
      is_step_completed fs folder log_filename = (Inr False, [])"
    by (simp add: is_step_completed_def)
  have em: "is_em_completed fs folder =
       (case file_at fs (folder @ [''EM.log'']) of
          Unreadable e \<Rightarrow> Inl e
        | Readable log_content \<Rightarrow>
            Inr (\<exists>pre post. log_content = pre @ ''Finished mdrun on rank 0'' @ post)
        | _ \<Rightarrow> Inr False)"
    by (simp add: is_em_completed_def contains_iff finished_marker_def
        split: file_state.splits)
  have nvt: "is_nvt_equilibration_completed fs folder =
       (case file_at fs (folder @ [''NVT.log'']) of
          Unreadable e \<Rightarrow> Inl e
        | Readable log_content \<Rightarrow>
            Inr (\<exists>pre post. log_content = pre @ ''Finished mdrun on rank 0'' @ post)
        | _ \<Rightarrow> Inr False)"
    by (simp add: is_nvt_equilibration_completed_def contains_iff finished_marker_def
        split: file_state.splits)
  have npt: "is_npt_equilibration_completed fs folder =
       (case file_at fs (folder @ [''NPT.log'']) of
          Unreadable e \<Rightarrow> Inl e
        | Readable log_content \<Rightarrow>
            Inr (\<exists>pre post. log_content = pre @ ''Finished mdrun on rank 0'' @ post)
        | _ \<Rightarrow> Inr False)"
    by (simp add: is_npt_equilibration_completed_def contains_iff finished_marker_def
        split: file_state.splits)
  have md: "is_md_simulation_completed fs folder =
       (case file_at fs (folder @ [''analisis'', ''MD.log'']) of
          Unreadable e \<Rightarrow> Inl e
        | Readable log_content \<Rightarrow>
            Inr (\<exists>pre post. log_content = pre @ ''Finished mdrun on rank 0'' @ post)
        | _ \<Rightarrow> Inr False)"
    by (simp add: is_md_simulation_completed_def contains_iff finished_marker_def
        split: file_state.splits)
  from v2 missing em nvt npt md show ?thesis by blast
qed

theorem is_step_completed_marker_witness:
  "file_at demo_fs ([''sims'', ''A_MDS''] @ [''NPT.log'']) \<noteq> Inaccessible
   \<and> is_step_completed demo_fs [''sims'', ''A_MDS''] ''NPT.log'' =
       (Inr False, [(ERROR, Error_reading [''sims'', ''A_MDS'', ''NPT.log''])])
   \<and> file_at demo_fs ([''sims'', ''A_MDS''] @ [''analisis'', ''MD.log'']) = Missing
   \<and> is_step_completed demo_fs [''sims'', ''A_MDS'', ''analisis''] ''MD.log'' = (Inr False, [])"
proof -
  have h: "file_at demo_fs ([''sims'', ''A_MDS''] @ [''NPT.log'']) = Unreadable OSError"
    by (simp add: demo_fs_def)
  have m: "file_at demo_fs ([''sims'', ''A_MDS'', ''analisis''] @ [''MD.log'']) = Missing"
    by (simp add: demo_fs_def)
  from is_step_completed_marker [of demo_fs "[''sims'', ''A_MDS'']" "''NPT.log''"]
    is_step_completed_marker [of demo_fs "[''sims'', ''A_MDS'', ''analisis'']" "''MD.log''"]
    h m
  show ?thesis by simp
qed

lemma is_step_completed_fst:
  "fst (is_step_completed fs folder log_filename) = Inr b \<Longrightarrow>
     b \<longleftrightarrow> (\<exists>log_content pre post. file_at fs (folder @ [log_filename]) = Readable log_content
        \<and> log_content = pre @ ''Finished mdrun on rank 0'' @ post)"
  by (cases "file_at fs (folder @ [log_filename])")
     (auto simp: is_step_completed_def contains_iff finished_marker_def)

text \<open>
  C5 as stated: the MD evidence is read from \<open><folder>/analysis/MD.log\<close>. In the example
  folder \<open>A_MDS\<close> that file holds the marker, and \<open>process_folder\<close> reports MD as not
  done.
\<close>

theorem process_folder_md_path_counterexample:
  "fst (is_step_completed demo_fs ([''sims'', ''A_MDS''] @ [''analysis'']) ''MD.log'') = Inr True
   \<and> fst (process_folder demo_fs [''sims'', ''A_MDS'']) = Inr demo_A_result
   \<and> \<not> md_done demo_A_result"
  by (simp add: demo_A) (simp add: is_step_completed_def demo_fs_def finished_marker_def
      demo_A_result_def)

text \<open>
  C5, amended. For every folder for which \<open>process_folder\<close> returns, MD is reported done
  iff \<open><folder>/analisis/MD.log\<close> (the directory name is spelled \<open>analisis\<close>) exists, can
  be read and contains the marker; EM, NVT and NPT are read from \<open>EM.log\<close>, \<open>NVT.log\<close>
  and \<open>NPT.log\<close> directly under the folder.
\<close>

theorem process_folder_evidence_paths:
  "fst (process_folder fs folder) = Inr r \<Longrightarrow>
   (let finished = (\<lambda>p. \<exists>log_content pre post. file_at fs p = Readable log_content
                       \<and> log_content = pre @ ''Finished mdrun on rank 0'' @ post)
    in (md_done r \<longleftrightarrow> finished (folder @ [''analisis'', ''MD.log'']))
     \<and> (em_done r \<longleftrightarrow> finished (folder @ [''EM.log'']))
     \<and> (nvt_done r \<longleftrightarrow> finished (folder @ [''NVT.log'']))
     \<and> (npt_done r \<longleftrightarrow> finished (folder @ [''NPT.log''])))"
proof -
  assume "fst (process_folder fs folder) = Inr r"
  note s = process_folder_returns [OF this]
  show ?thesis
    using is_step_completed_fst [of fs folder "''EM.log''" "em_done r"]
      is_step_completed_fst [of fs folder "''NVT.log''" "nvt_done r"]
      is_step_completed_fst [of fs folder "''NPT.log''" "npt_done r"]
      is_step_completed_fst [of fs "folder @ [''analisis'']" "''MD.log''" "md_done r"] s
    by (simp add: Let_def)
qed

theorem process_folder_evidence_paths_witness:
  "fst (process_folder demo_fs [''sims'', ''B_MDS'']) = Inr demo_B_result
   \<and> md_done demo_B_result
   \<and> file_at demo_fs ([''sims'', ''B_MDS''] @ [''analisis'', ''MD.log'']) =
       Readable ''Finished mdrun on rank 0''"
proof -
  have h: "fst (process_folder demo_fs [''sims'', ''B_MDS'']) = Inr demo_B_result"
    by (simp add: demo_B)
  from process_folder_evidence_paths [OF h] h show ?thesis
    by (simp add: demo_B_result_def demo_fs_def)
qed

section \<open>The unit locator\<close>

lemma endswith_iff: "endswith s suf \<longleftrightarrow> (\<exists>pre. s = pre @ suf)"
  by (auto simp: endswith_def suffix_def)

lemma path_name_child: "path_name (d @ [n]) = n"
  by (simp add: path_name_def)

lemma select_folders_answers:
  "\<forall>c \<in> set children. \<exists>d. is_dir fs c = Inr d \<Longrightarrow>
     select_folders fs children =
       Inr (filter (\<lambda>c. is_dir fs c = Inr True \<and> endswith (path_name c) ''_MDS'') children)"
proof (induction children)
  case Nil
  then show ?case by simp
next
  case (Cons c children)
  then obtain d where d: "is_dir fs c = Inr d" by auto
  from Cons have "select_folders fs children =
      Inr (filter (\<lambda>c. is_dir fs c = Inr True \<and> endswith (path_name c) ''_MDS'') children)"
    by simp
  with d show ?case by simp
qed

text \<open>
  C9 as stated: for every input directory the locator returns the qualifying children,
  and the empty list rather than an error when no child qualifies. The directory of
  \<open>locked_fs\<close> can be listed, its only child \<open>notes.txt\<close> does not qualify, and the
  locator raises: \<open>is_dir\<close> is called on the child and its \<open>stat\<close> is denied.
\<close>

theorem get_protein_folders_counterexample:
  "iterdir locked_fs [''sims''] = Some [''notes.txt'']
   \<and> \<not> endswith ''notes.txt'' ''_MDS''
   \<and> get_protein_folders locked_fs [''sims''] = Inl OSError"
  by (simp add: get_protein_folders_def locked_fs_def endswith_def suffix_to_prefix)

text \<open>
  C9, amended. For every input directory that can be listed and on none of whose children
  \<open>is_dir\<close> raises, \<open>get_protein_folders\<close> returns, in the order of the listing, exactly
  the children that are directories and whose name ends with \<open>_MDS\<close>; a child named
  \<open>Foo_MDX\<close> is never returned, a child named \<open>Bar_MDS\<close> is returned only if it is a
  directory, and the result is the empty list (not an error) when no child qualifies.
\<close>

theorem get_protein_folders_exact:
  "iterdir fs input_root = Some names \<Longrightarrow>
   \<forall>n \<in> set names. \<exists>d. is_dir fs (input_root @ [n]) = Inr d \<Longrightarrow>
   (\<exists>folders. get_protein_folders fs input_root = Inr folders
      \<and> folders = map (\<lambda>n. input_root @ [n])
           (filter (\<lambda>n. is_dir fs (input_root @ [n]) = Inr True
                        \<and> (\<exists>pre. n = pre @ ''_MDS'')) names)
      \<and> set folders = {input_root @ [n] | n. n \<in> set names
           \<and> is_dir fs (input_root @ [n]) = Inr True \<and> (\<exists>pre. n = pre @ ''_MDS'')}
      \<and> input_root @ [''Foo_MDX''] \<notin> set folders
      \<and> (input_root @ [''Bar_MDS''] \<in> set folders \<longleftrightarrow>
           ''Bar_MDS'' \<in> set names \<and> is_dir fs (input_root @ [''Bar_MDS'']) = Inr True)
      \<and> (folders = [] \<longleftrightarrow>
           {n. n \<in> set names \<and> is_dir fs (input_root @ [n]) = Inr True
               \<and> (\<exists>pre. n = pre @ ''_MDS'')} = {}))"
proof -
  assume l: "iterdir fs input_root = Some names"
  assume a: "\<forall>n \<in> set names. \<exists>d. is_dir fs (input_root @ [n]) = Inr d"
  let ?q = "\<lambda>n. is_dir fs (input_root @ [n]) = Inr True \<and> (\<exists>pre. n = pre @ ''_MDS'')"
  have "\<forall>c \<in> set (map (\<lambda>n. input_root @ [n]) names). \<exists>d. is_dir fs c = Inr d"
    using a by auto
  from select_folders_answers [OF this]
  have eq: "get_protein_folders fs input_root = Inr (map (\<lambda>n. input_root @ [n]) (filter ?q names))"
    using l by (simp add: get_protein_folders_def filter_map comp_def path_name_child endswith_iff)
  have mdx: "\<not> (\<exists>pre. ''Foo_MDX'' = pre @ ''_MDS'')"
  proof
    assume "\<exists>pre. ''Foo_MDX'' = pre @ ''_MDS''"
    then obtain pre where "''Foo_MDX'' = pre @ ''_MDS''" by blast
    then have "last ''Foo_MDX'' = last (pre @ ''_MDS'')" by simp
    then show False by simp
  qed
  have mds: "\<exists>pre. ''Bar_MDS'' = pre @ ''_MDS''"
  proof
    show "''Bar_MDS'' = ''Bar'' @ ''_MDS''" by simp
  qed
  have emp: "filter ?q names = [] \<longleftrightarrow> {n. n \<in> set names \<and> ?q n} = {}"
    by (auto simp: filter_empty_conv)
  have s: "set (map (\<lambda>n. input_root @ [n]) (filter ?q names)) =
      {input_root @ [n] | n. n \<in> set names \<and> ?q n}"
    by auto
  show ?thesis
    unfolding eq using mdx mds emp s by auto
qed

theorem get_protein_folders_exact_witness:
  "iterdir demo_fs [''sims''] = Some [''A_MDS'', ''Foo_MDX'', ''Bar_MDS'', ''B_MDS'']
   \<and> is_dir demo_fs [''sims'', ''A_MDS''] = Inr True
   \<and> is_dir demo_fs [''sims'', ''Foo_MDX''] = Inr True
   \<and> is_dir demo_fs [''sims'', ''Bar_MDS''] = Inr False
   \<and> is_dir demo_fs [''sims'', ''B_MDS''] = Inr True
   \<and> get_protein_folders demo_fs [''sims''] = Inr [[''sims'', ''A_MDS''], [''sims'', ''B_MDS'']]"
proof -
  have l: "iterdir demo_fs [''sims''] = Some [''A_MDS'', ''Foo_MDX'', ''Bar_MDS'', ''B_MDS'']"
    by (simp add: demo_fs_def)
  have a: "\<forall>n \<in> set [''A_MDS'', ''Foo_MDX'', ''Bar_MDS'', ''B_MDS''].
      \<exists>d. is_dir demo_fs ([''sims''] @ [n]) = Inr d"
    by (simp add: demo_fs_def)
  have d: "is_dir demo_fs [''sims'', ''A_MDS''] = Inr True"
    "is_dir demo_fs [''sims'', ''Foo_MDX''] = Inr True"
    "is_dir demo_fs [''sims'', ''Bar_MDS''] = Inr False"
    "is_dir demo_fs [''sims'', ''B_MDS''] = Inr True"
    by (simp_all add: demo_fs_def)
  have e: "endswith ''A_MDS'' ''_MDS''" "\<not> endswith ''Foo_MDX'' ''_MDS''"
    "endswith ''B_MDS'' ''_MDS''"
    by (simp_all add: endswith_def suffix_to_prefix)
  from get_protein_folders_exact [OF l a] l show ?thesis
    by (simp add: d e endswith_iff [symmetric])
qed

section \<open>The size of a folder\<close>

lemma round_half_even_nonneg: "0 \<le> y \<Longrightarrow> 0 \<le> round_half_even y"
  by (auto simp: round_half_even_def Let_def)

lemma rnd_nonneg: "0 \<le> x \<Longrightarrow> 0 \<le> rnd x"
  by (simp add: rnd_def Let_def round_half_even_nonneg)

lemma size_loop_acc:
  "size_loop ps acc =
     (acc + readable_bytes (takeWhile (\<lambda>p. p \<noteq> Fault) ps), Fault \<in> set ps)"
proof (induction ps arbitrary: acc)
  case Nil
  then show ?case by simp
next
  case (Cons p ps)
  then show ?case by (cases p) simp_all
qed

lemma size_loop_files:
  "size_loop (map RegularFile sizes) acc = (acc + sum_list sizes, False)"
  by (induction sizes arbitrary: acc) simp_all

lemma getsize_loop_raises:
  "(\<exists>e. getsize_loop gs acc = Inl e) \<longleftrightarrow> (\<exists>e. Inl e \<in> set gs)"
proof (induction gs arbitrary: acc)
  case Nil
  then show ?case by simp
next
  case (Cons g gs)
  then show ?case by (cases g) auto
qed

lemma getsize_loop_total:
  "getsize_loop (map Inr sizes) acc = Inr (acc + sum_list sizes)"
  by (induction sizes arbitrary: acc) simp_all

text \<open>
  C7 as stated: an entry with a fault counts zero and the remaining entries are still
  counted, so the computation is never aborted. In the example folder \<open>A_MDS\<close> the
  traversal meets 1 MiB, a fault, and 1 MiB: \<open>get_folder_size\<close> of the monitoring
  scripts returns 1.0 where the claim gives 2.0, and \<open>get_folder_size\<close> of the local
  script raises.
\<close>

theorem get_folder_size_counterexample:
  "fst (get_folder_size demo_fs [''sims'', ''A_MDS'']) = 1
   \<and> rnd (of_nat (readable_bytes (rglob demo_fs [''sims'', ''A_MDS''])) / 1024 ^ 2) = 2
   \<and> get_folder_size_local demo_fs [''sims'', ''A_MDS''] = Inl OSError"
proof -
  have one: "rnd 1 = 1" and two: "rnd 2 = 2"
    by code_simp+
  have "size_loop (rglob demo_fs [''sims'', ''A_MDS'']) 0 = (1048576, True)"
    by (simp add: demo_fs_def)
  moreover have "readable_bytes (rglob demo_fs [''sims'', ''A_MDS'']) = 2097152"
    by (simp add: demo_fs_def)
  moreover have "get_folder_size_local demo_fs [''sims'', ''A_MDS''] = Inl OSError"
    by (simp add: get_folder_size_local_def demo_fs_def)
  ultimately show ?thesis
    by (simp add: get_folder_size_def one two)
qed

text \<open>
  C7, amended. In \<open>get_folder_size\<close> of the monitoring scripts, an exception that reaches
  the loop (raised by the traversal, by \<open>is_file\<close> or by \<open>stat\<close>) is logged once and ends
  the traversal: the regular files met before it are counted, nothing after it is. That
  function never raises, and its result is the float nearest to the counted bytes divided
  by \<open>1024^2\<close>, which is at least 0. A subdirectory that \<open>rglob\<close> may not list is passed
  over inside \<open>pathlib\<close>: nothing is logged and the files after it are counted.
  \<open>get_folder_size\<close> of the local script has no handler: it raises exactly when
  \<open>os.path.getsize\<close> raises for one of the files, and otherwise returns the sum of the
  sizes divided by \<open>1024^2\<close>.
\<close>

theorem get_folder_size_stops_at_fault:
  "get_folder_size fs folder =
     (rnd (of_nat (readable_bytes (takeWhile (\<lambda>p. p \<noteq> Fault) (rglob fs folder))) / 1024 ^ 2),
      if Fault \<in> set (rglob fs folder) then [(ERROR, Error_calculating_size folder)] else [])
   \<and> 0 \<le> fst (get_folder_size fs folder)
   \<and> get_folder_size (fs\<lparr>rglob := (\<lambda>p. UnlistableDir # map RegularFile sizes)\<rparr>) folder =
       (rnd (of_nat (sum_list sizes) / 1024 ^ 2), [])
   \<and> ((\<exists>e. get_folder_size_local fs folder = Inl e) \<longleftrightarrow> (\<exists>e. Inl e \<in> set (walk fs folder)))
   \<and> get_folder_size_local (fs\<lparr>walk := (\<lambda>p. map Inr sizes)\<rparr>) folder =
       Inr (rnd (of_nat (sum_list sizes) / 1024 ^ 2))"
proof -
  have l: "(\<exists>e. get_folder_size_local fs folder = Inl e) \<longleftrightarrow> (\<exists>e. Inl e \<in> set (walk fs folder))"
    using getsize_loop_raises [of "walk fs folder" 0]
    by (auto simp: get_folder_size_local_def split: sum.splits)
  have t: "get_folder_size_local (fs\<lparr>walk := (\<lambda>p. map Inr sizes)\<rparr>) folder =
       Inr (rnd (of_nat (sum_list sizes) / 1024 ^ 2))"
    by (simp add: get_folder_size_local_def getsize_loop_total)
  have u: "get_folder_size (fs\<lparr>rglob := (\<lambda>p. UnlistableDir # map RegularFile sizes)\<rparr>) folder =
       (rnd (of_nat (sum_list sizes) / 1024 ^ 2), [])"
    by (simp add: get_folder_size_def size_loop_files)
  have v: "get_folder_size fs folder =
     (rnd (of_nat (readable_bytes (takeWhile (\<lambda>p. p \<noteq> Fault) (rglob fs folder))) / 1024 ^ 2),
      if Fault \<in> set (rglob fs folder) then [(ERROR, Error_calculating_size folder)] else [])"
    by (simp add: get_folder_size_def size_loop_acc)
  have n: "0 \<le> fst (get_folder_size fs folder)"
    by (simp add: v rnd_nonneg)
  from v n u l t show ?thesis by blast
qed

section \<open>The worker pool against the sequential loop\<close>

text \<open>
  Every schedule gives a permutation of the task indices, and every permutation is the
  completion order of some schedule (itself).
\<close>

lemma completion_order_distinct: "distinct (completion_order n sched)"
  by (auto simp: completion_order_def)

lemma completion_order_set: "set (completion_order n sched) = {0..<n}"
  by (auto simp: completion_order_def)

lemma completion_order_sort: "sort (completion_order n sched) = [0..<n]"
proof -
  have "sort (completion_order n sched) = sorted_list_of_set (set (completion_order n sched))"
    by (simp add: sorted_list_of_set_sort_remdups distinct_remdups_id completion_order_distinct)
  then show ?thesis by (simp add: completion_order_set)
qed

lemma completion_order_covers:
  "mset p = mset [0..<n] \<Longrightarrow> completion_order n p = p"
proof -
  assume m: "mset p = mset [0..<n]"
  then have s: "set p = {0..<n}" by (metis mset_eq_setD set_upt)
  from m have d: "distinct p" by (metis distinct_upt mset_eq_imp_distinct_iff)
  have "filter (\<lambda>i. i < n) p = p" using s by (auto intro: filter_True)
  moreover have "filter (\<lambda>i. i \<notin> set p) [0..<n] = []" using s by (auto simp: filter_empty_conv)
  ultimately show ?thesis using d by (simp add: completion_order_def)
qed

lemma insort_key_fst_map:
  "(\<And>i. fst (g i) = i) \<Longrightarrow> insort_key fst (g x) (map g ys) = map g (insort x ys)"
  by (induction ys) simp_all

lemma sort_key_fst_map:
  "(\<And>i. fst (g i) = i) \<Longrightarrow> sort_key fst (map g ys) = map g (sort ys)"
  by (induction ys) (simp_all add: insort_key_fst_map)

lemma mset_concat_map_cong:
  "mset ys = mset zs \<Longrightarrow> mset (concat (map h ys)) = mset (concat (map h zs))"
proof -
  assume p: "mset ys = mset zs"
  have "mset (concat (map h us)) = sum_mset (image_mset (\<lambda>u. mset (h u)) (mset us))" for us
    by (induction us) simp_all
  with p show ?thesis by simp
qed

lemma sequential_map_fst:
  "fst (sequential_map f xs) = collect_results (map (\<lambda>x. fst (f x)) xs)"
  by (induction xs) (simp_all add: case_prod_beta Let_def split: sum.splits)

lemma sequential_map_log_returned:
  "fst (sequential_map f xs) = Inr rs \<Longrightarrow>
     snd (sequential_map f xs) = concat (map (\<lambda>x. snd (f x)) xs)"
proof (induction xs arbitrary: rs)
  case Nil
  then show ?case by simp
next
  case (Cons x xs)
  then show ?case
    by (auto simp: case_prod_beta Let_def split: sum.splits)
qed

lemma sequential_map_log_sub:
  "mset (snd (sequential_map f xs)) \<subseteq># mset (concat (map (\<lambda>x. snd (f x)) xs))"
proof (induction xs)
  case Nil
  then show ?case by simp
next
  case (Cons x xs)
  then show ?case
    by (auto simp: case_prod_beta Let_def split: sum.splits)
qed

lemma executor_map_results:
  "fst (executor_map sched f xs) = collect_results (map (\<lambda>x. fst (f x)) xs)"
proof -
  let ?g = "\<lambda>i. (i, f (xs ! i))"
  have "sort_key fst (map ?g (completion_order (length xs) sched)) = map ?g [0..<length xs]"
    by (simp add: sort_key_fst_map completion_order_sort)
  then have "fst (executor_map sched f xs) =
      collect_results (map (\<lambda>i. fst (f (xs ! i))) [0..<length xs])"
    by (simp add: executor_map_def Let_def comp_def)
  also have "map (\<lambda>i. fst (f (xs ! i))) [0..<length xs] =
      map (\<lambda>x. fst (f x)) (map (\<lambda>i. xs ! i) [0..<length xs])"
    by (simp add: comp_def)
  also have "\<dots> = map (\<lambda>x. fst (f x)) xs"
    by (simp add: map_nth)
  finally show ?thesis .
qed

lemma executor_map_log:
  "mset (snd (executor_map sched f xs)) = mset (concat (map (\<lambda>x. snd (f x)) xs))"
proof -
  let ?h = "\<lambda>i. snd (f (xs ! i))"
  have p: "mset (completion_order (length xs) sched) = mset [0..<length xs]"
    by (metis completion_order_sort mset_sort)
  have "snd (executor_map sched f xs) = concat (map ?h (completion_order (length xs) sched))"
    by (simp add: executor_map_def Let_def comp_def)
  then have "mset (snd (executor_map sched f xs)) = mset (concat (map ?h [0..<length xs]))"
    using mset_concat_map_cong [OF p] by simp
  also have "map ?h [0..<length xs] = map (\<lambda>x. snd (f x)) (map (\<lambda>i. xs ! i) [0..<length xs])"
    by (simp add: comp_def)
  also have "\<dots> = map (\<lambda>x. snd (f x)) xs"
    by (simp add: map_nth)
  finally show ?thesis .
qed

lemma generate_outcome:
  "gen_written (generate_monitoring_report_and_plots w d) =
     (case get_protein_folders (files w) d of
        Inl e \<Rightarrow> []
      | Inr folders \<Rightarrow>
          if folders = [] then []
          else (case collect_results (map (\<lambda>x. fst (process_folder (files w) x)) folders) of
                  Inl e \<Rightarrow> []
                | Inr results \<Rightarrow>
                    (case aggregate results (length folders) of
                       Inl e \<Rightarrow> []
                     | Inr artifacts \<Rightarrow> if output_writable w then artifacts else [])))
   \<and> gen_raised (generate_monitoring_report_and_plots w d) =
     (case get_protein_folders (files w) d of
        Inl e \<Rightarrow> Some e
      | Inr folders \<Rightarrow>
          if folders = [] then None
          else (case collect_results (map (\<lambda>x. fst (process_folder (files w) x)) folders) of
                  Inl e \<Rightarrow> Some e
                | Inr results \<Rightarrow>
                    (case aggregate results (length folders) of
                       Inl e \<Rightarrow> Some e
                     | Inr artifacts \<Rightarrow> if output_writable w then None else Some OSError)))"
proof (cases "get_protein_folders (files w) d")
  case (Inl e)
  then show ?thesis by (simp add: generate_monitoring_report_and_plots_def)
next
  case (Inr folders)
  obtain l where e: "executor_map (completion w) (process_folder (files w)) folders =
      (collect_results (map (\<lambda>x. fst (process_folder (files w) x)) folders), l)"
    by (metis executor_map_results prod.collapse)
  show ?thesis
    by (simp add: generate_monitoring_report_and_plots_def Inr e Let_def split: sum.splits)
qed

lemma generate_schedule_independent:
  "gen_written (generate_monitoring_report_and_plots (w\<lparr>completion := sched\<rparr>) d) =
     gen_written (generate_monitoring_report_and_plots (w\<lparr>completion := sched'\<rparr>) d)
   \<and> gen_raised (generate_monitoring_report_and_plots (w\<lparr>completion := sched\<rparr>) d) =
     gen_raised (generate_monitoring_report_and_plots (w\<lparr>completion := sched'\<rparr>) d)"
  by (simp add: generate_outcome cong: sum.case_cong if_cong)

lemma collect_results_Inr: "collect_results rs = Inr vs \<Longrightarrow> rs = map Inr vs"
proof (induction rs arbitrary: vs)
  case Nil
  then show ?case by simp
next
  case (Cons r rs)
  then show ?case by (cases r) (auto split: sum.splits)
qed

text \<open>
  C8. For every list of folders (also the empty one), every file system and every
  schedule of the worker pool, the outcome of the concurrent fan-out over
  \<open>process_folder\<close> is the outcome of applying \<open>process_folder\<close> to the folders one after
  the other: the same results in the same order, or the same first exception; so the
  aggregated counts, percentages, plot series and report are the same, and what
  \<open>generate_monitoring_report_and_plots\<close> writes or raises does not depend on the
  schedule. When all folders return, the results are those of \<open>process_folder\<close> on each
  folder and the log records are the same up to their order; when one raises, the
  sequential loop stops there and the pool has logged at least as much.
\<close>

theorem executor_map_equals_sequential:
  "fst (executor_map sched (process_folder fs) units) =
     fst (sequential_map (process_folder fs) units)
   \<and> (case fst (executor_map sched (process_folder fs) units) of
         Inl e \<Rightarrow> Inl e | Inr results \<Rightarrow> aggregate results (length units)) =
     (case fst (sequential_map (process_folder fs) units) of
         Inl e \<Rightarrow> Inl e | Inr results \<Rightarrow> aggregate results (length units))
   \<and> mset (snd (sequential_map (process_folder fs) units)) \<subseteq>#
       mset (snd (executor_map sched (process_folder fs) units))
   \<and> (fst (sequential_map (process_folder fs) units) = Inr results \<longrightarrow>
        map Inr results = map (\<lambda>u. fst (process_folder fs u)) units
        \<and> fst (executor_map sched (process_folder fs) units) = Inr results
        \<and> mset (snd (executor_map sched (process_folder fs) units)) =
            mset (snd (sequential_map (process_folder fs) units)))
   \<and> gen_written (generate_monitoring_report_and_plots (w\<lparr>completion := sched\<rparr>) d) =
     gen_written (generate_monitoring_report_and_plots (w\<lparr>completion := sched'\<rparr>) d)
   \<and> gen_raised (generate_monitoring_report_and_plots (w\<lparr>completion := sched\<rparr>) d) =
     gen_raised (generate_monitoring_report_and_plots (w\<lparr>completion := sched'\<rparr>) d)"
proof -
  have r: "fst (executor_map sched (process_folder fs) units) =
      fst (sequential_map (process_folder fs) units)"
    by (simp add: executor_map_results sequential_map_fst)
  have a: "(case fst (executor_map sched (process_folder fs) units) of
         Inl e \<Rightarrow> Inl e | Inr results \<Rightarrow> aggregate results (length units)) =
     (case fst (sequential_map (process_folder fs) units) of
         Inl e \<Rightarrow> Inl e | Inr results \<Rightarrow> aggregate results (length units))"
    by (simp only: r)
  have s: "mset (snd (sequential_map (process_folder fs) units)) \<subseteq>#
       mset (snd (executor_map sched (process_folder fs) units))"
    by (simp add: executor_map_log sequential_map_log_sub)
  have l: "fst (sequential_map (process_folder fs) units) = Inr results \<longrightarrow>
        map Inr results = map (\<lambda>u. fst (process_folder fs u)) units
        \<and> fst (executor_map sched (process_folder fs) units) = Inr results
        \<and> mset (snd (executor_map sched (process_folder fs) units)) =
            mset (snd (sequential_map (process_folder fs) units))"
  proof
    assume h: "fst (sequential_map (process_folder fs) units) = Inr results"
    then have "collect_results (map (\<lambda>u. fst (process_folder fs u)) units) = Inr results"
      by (simp add: sequential_map_fst)
    then have m: "map Inr results = map (\<lambda>u. fst (process_folder fs u)) units"
      using collect_results_Inr by fastforce
    show "map Inr results = map (\<lambda>u. fst (process_folder fs u)) units
        \<and> fst (executor_map sched (process_folder fs) units) = Inr results
        \<and> mset (snd (executor_map sched (process_folder fs) units)) =
            mset (snd (sequential_map (process_folder fs) units))"
      using m h r by (simp add: executor_map_log sequential_map_log_returned [OF h])
  qed
  have g: "gen_written (generate_monitoring_report_and_plots (w\<lparr>completion := sched\<rparr>) d) =
      gen_written (generate_monitoring_report_and_plots (w\<lparr>completion := sched'\<rparr>) d)
    \<and> gen_raised (generate_monitoring_report_and_plots (w\<lparr>completion := sched\<rparr>) d) =
      gen_raised (generate_monitoring_report_and_plots (w\<lparr>completion := sched'\<rparr>) d)"
    by (rule generate_schedule_independent)
  from r a s l g show ?thesis by blast
qed

theorem executor_map_equals_sequential_witness:
  "fst (sequential_map (process_folder demo_fs) [[''sims'', ''A_MDS''], [''sims'', ''B_MDS'']]) =
     Inr [demo_A_result, demo_B_result]
   \<and> fst (executor_map [1, 0] (process_folder demo_fs)
        [[''sims'', ''A_MDS''], [''sims'', ''B_MDS'']]) = Inr [demo_A_result, demo_B_result]"
proof -
  have h: "fst (sequential_map (process_folder demo_fs)
      [[''sims'', ''A_MDS''], [''sims'', ''B_MDS'']]) = Inr [demo_A_result, demo_B_result]"
    by (simp add: demo_A demo_B)
  from executor_map_equals_sequential [of "[1, 0]" demo_fs
      "[[''sims'', ''A_MDS''], [''sims'', ''B_MDS'']]" "[demo_A_result, demo_B_result]"] h
  show ?thesis by simp
qed

section \<open>One run of the pipeline\<close>

lemma percentage_total: "n \<noteq> 0 \<Longrightarrow> \<exists>q. percentage c n = Inr q"
  by (simp add: percentage_def truediv_def)

lemma aggregate_total: "n \<noteq> 0 \<Longrightarrow> \<exists>artifacts. aggregate rs n = Inr artifacts"
proof -
  assume n: "n \<noteq> 0"
  let ?t = "foldl collect empty_tally rs"
  obtain q1 where q1: "percentage (length (em_completed ?t)) n = Inr q1"
    using percentage_total [OF n] by blast
  obtain q2 where q2: "percentage (length (nvt_completed ?t)) n = Inr q2"
    using percentage_total [OF n] by blast
  obtain q3 where q3: "percentage (length (npt_completed ?t)) n = Inr q3"
    using percentage_total [OF n] by blast
  obtain q4 where q4: "percentage (length (md_completed ?t)) n = Inr q4"
    using percentage_total [OF n] by blast
  show ?thesis
    by (simp add: aggregate_def Let_def q1 q2 q3 q4)
qed

lemma generate_raises:
  "gen_raised (generate_monitoring_report_and_plots w d) =
     (case get_protein_folders (files w) d of
        Inl e \<Rightarrow> Some e
      | Inr folders \<Rightarrow>
          if folders = [] then None
          else (case collect_results (map (\<lambda>x. fst (process_folder (files w) x)) folders) of
                  Inl e \<Rightarrow> Some e
                | Inr results \<Rightarrow> if output_writable w then None else Some OSError))"
proof (cases "get_protein_folders (files w) d")
  case (Inl e)
  then show ?thesis by (simp add: generate_outcome)
next
  case (Inr folders)
  show ?thesis
  proof (cases "folders = []")
    case True
    with Inr show ?thesis by (simp add: generate_outcome)
  next
    case False
    have "\<exists>artifacts. aggregate results (length folders) = Inr artifacts" for results
      using False aggregate_total [of "length folders"] by auto
    then have "(case aggregate results (length folders) of
           Inl e \<Rightarrow> Some e
         | Inr artifacts \<Rightarrow> if output_writable w then None else Some OSError) =
        (if output_writable w then None else Some OSError)" for results
      by (metis sum.simps(6))
    with Inr False show ?thesis
      by (simp add: generate_outcome cong: sum.case_cong)
  qed
qed

lemma job_raised_gen:
  "job_raised (job w d) = gen_raised (generate_monitoring_report_and_plots w d)"
  by (simp add: job_def Let_def case_prod_beta split: option.splits)

lemma job_written_gen:
  "job_written (job w d) = gen_written (generate_monitoring_report_and_plots w d)"
  by (simp add: job_def Let_def case_prod_beta split: option.splits)


lemma attach_log:
  "snd (attach present atts) =
     map (\<lambda>f. (ERROR, Error_attaching f)) (filter (\<lambda>f. f \<notin> set present) atts)"
  by (induction atts) (simp_all add: case_prod_beta)


lemma send_email_report_log:
  "snd (send_email_report w present atts) =
     map (\<lambda>f. (ERROR, Error_attaching f)) (filter (\<lambda>f. f \<notin> set present) atts) @
     [if smtp_ok w then (INFO, Email_sent) else (ERROR, Error_sending_email)]"
  by (simp add: send_email_report_def case_prod_beta attach_log)

lemma demo_folders:
  "get_protein_folders demo_fs [''sims''] = Inr [[''sims'', ''A_MDS''], [''sims'', ''B_MDS'']]"
  by (simp add: get_protein_folders_def demo_fs_def endswith_def path_name_def suffix_to_prefix)

lemma demo_job_ok: "job_raised (job demo_world [''sims'']) = None"
  by (simp add: job_raised_gen generate_raises demo_world_def demo_folders demo_A demo_B)




section \<open>The loop\<close>

lemma run_pending_ok:
  "job_raised (job (env_schedule inp) (input_dir a)) = None \<Longrightarrow>
     \<exists>st'. snd (run_pending a st inp) = Inr st'"
  by (simp add: run_pending_def Let_def)

text \<open>
  C2 as stated: when a request is pending and the schedule is due in the same iteration,
  exactly one run of the pipeline occurs. In the iteration \<open>both_due\<close> there are two.
\<close>

theorem tick_both_due_counterexample:
  "mailbox both_due = Request_pending \<and> should_run demo_state both_due
   \<and> length (tick_runs (tick demo_args demo_state both_due)) = 2"
  using demo_job_ok
  by (simp add: tick_def run_pending_def should_run_def both_due_def demo_state_def
      demo_args_def Let_def)

text \<open>
  C2, amended. In an iteration in which a request is pending and the schedule is due, two
  runs of the pipeline occur, one after the other: first the requested run, then, if that
  one did not raise, the scheduled run.
\<close>

theorem tick_both_due_runs_twice:
  "mailbox inp = Request_pending \<Longrightarrow> should_run st inp \<Longrightarrow>
   job_raised (job (env_request inp) (input_dir a)) = None \<Longrightarrow>
     tick_runs (tick a st inp) =
       [job (env_request inp) (input_dir a), job (env_schedule inp) (input_dir a)]"
  by (simp add: tick_def run_pending_def Let_def split: option.splits)

theorem tick_both_due_runs_twice_witness:
  "mailbox both_due = Request_pending \<and> should_run demo_state both_due
   \<and> job_raised (job (env_request both_due) (input_dir demo_args)) = None
   \<and> tick_runs (tick demo_args demo_state both_due) =
       [job demo_world [''sims''], job demo_world [''sims'']]"
proof -
  have m: "mailbox both_due = Request_pending" by (simp add: both_due_def)
  have d: "should_run demo_state both_due"
    by (simp add: should_run_def both_due_def demo_state_def)
  have j: "job_raised (job (env_request both_due) (input_dir demo_args)) = None"
    using demo_job_ok by (simp add: both_due_def demo_args_def)
  from tick_both_due_runs_twice [OF m d j] m d j show ?thesis
    by (simp add: both_due_def demo_args_def)
qed

text \<open>
  C3 as stated: no fault of a pipeline run ends the loop. When the input directory cannot
  be listed, or the output directory cannot be written, the exception leaves \<open>job\<close> and
  the loop: there is no next iteration.
\<close>

theorem tick_pipeline_fault_counterexample:
  "tick_next (tick demo_args demo_state request_unlistable) = Inl OSError
   \<and> tick_next (tick demo_args demo_state request_unwritable) = Inl OSError
   \<and> length (main_loop demo_args demo_state [request_unlistable, both_due]) = 1"
proof -
  have u: "job_raised (job unlistable_world [''sims'']) = Some OSError"
    by (simp add: job_raised_gen generate_raises get_protein_folders_def unlistable_world_def)
  have w: "job_raised (job (demo_world\<lparr>output_writable := False\<rparr>) [''sims'']) = Some OSError"
    by (simp add: job_raised_gen generate_raises demo_world_def demo_folders demo_A demo_B)
  have 1: "tick_next (tick demo_args demo_state request_unlistable) = Inl OSError"
    using u by (simp add: tick_def request_unlistable_def demo_args_def Let_def)
  have 2: "tick_next (tick demo_args demo_state request_unwritable) = Inl OSError"
    using w by (simp add: tick_def request_unwritable_def demo_args_def Let_def)
  show ?thesis using 1 2 by (simp add: Let_def)
qed

lemma is_step_completed_log:
  "m \<in> set (snd (is_step_completed fs folder n)) \<Longrightarrow> \<exists>p. m = (ERROR, Error_reading p)"
  by (auto simp: is_step_completed_def Let_def split: file_state.splits)

lemma get_folder_size_log:
  "m \<in> set (snd (get_folder_size fs folder)) \<Longrightarrow> \<exists>p. m = (ERROR, Error_calculating_size p)"
  by (auto simp: get_folder_size_def case_prod_beta split: if_splits)

lemma process_folder_log:
  "m \<in> set (snd (process_folder fs x)) \<Longrightarrow>
     (\<exists>p. m = (ERROR, Error_reading p)) \<or> (\<exists>p. m = (ERROR, Error_calculating_size p))"
  unfolding process_folder_def Let_def case_prod_beta
  by (auto split: sum.splits dest: is_step_completed_log get_folder_size_log)

lemma executor_map_log_members:
  "m \<in> set (snd (executor_map sched f xs)) \<Longrightarrow> \<exists>x. m \<in> set (snd (f x))"
  by (auto simp: executor_map_def Let_def)

lemma gen_log_messages:
  "m \<in> set (gen_log (generate_monitoring_report_and_plots w d)) \<Longrightarrow>
     (\<exists>p. m = (ERROR, Error_reading p)) \<or> (\<exists>p. m = (ERROR, Error_calculating_size p))
     \<or> m = (WARNING, No_protein_folders) \<or> m = (INFO, Report_saved)"
proof -
  assume m: "m \<in> set (gen_log (generate_monitoring_report_and_plots w d))"
  have pool: "m \<in> set (snd (executor_map (completion w) (process_folder (files w)) fs)) \<Longrightarrow>
      (\<exists>p. m = (ERROR, Error_reading p)) \<or> (\<exists>p. m = (ERROR, Error_calculating_size p))" for fs
    using executor_map_log_members process_folder_log by blast
  show ?thesis
  proof (cases "get_protein_folders (files w) d")
    case (Inl e)
    with m show ?thesis by (simp add: generate_monitoring_report_and_plots_def)
  next
    case (Inr folders)
    with m pool [of folders] show ?thesis
      by (auto simp: generate_monitoring_report_and_plots_def Let_def case_prod_beta
          split: sum.splits if_splits)
  qed
qed

lemma job_log_returned:
  "job_raised (job w d) = None \<Longrightarrow>
   atts = [''complete_monitoring_report.txt'', ''global_progress.png'',
           ''progress_per_protein.png'', ''storage_per_protein.png''] \<Longrightarrow>
     job_log (job w d) =
       gen_log (generate_monitoring_report_and_plots w d) @
       map (\<lambda>f. (ERROR, Error_attaching f))
         (filter (\<lambda>f. f \<notin> set (stale w) \<and> f \<notin> artifact_file ` set (job_written (job w d)))
            atts) @
       [if smtp_ok w then (INFO, Email_sent) else (ERROR, Error_sending_email),
        (INFO, Report_sent_to_recipient)]"
proof -
  assume "job_raised (job w d) = None"
  then have r: "gen_raised (generate_monitoring_report_and_plots w d) = None"
    by (simp add: job_raised_gen)
  assume a: "atts = [''complete_monitoring_report.txt'', ''global_progress.png'',
           ''progress_per_protein.png'', ''storage_per_protein.png'']"
  define g where "g = generate_monitoring_report_and_plots w d"
  have "job w d =
      (let (email, l) = send_email_report w (stale w @ map artifact_file (gen_written g)) atts
       in \<lparr>job_log = gen_log g @ l @ [(INFO, Report_sent_to_recipient)],
            job_written = gen_written g, job_email = email, job_raised = None\<rparr>)"
    using r unfolding job_def g_def [symmetric] a by (simp add: Let_def)
  then have jl: "job_log (job w d) =
      gen_log g @ snd (send_email_report w (stale w @ map artifact_file (gen_written g)) atts) @
      [(INFO, Report_sent_to_recipient)]"
    and jw: "job_written (job w d) = gen_written g"
    by (simp_all add: case_prod_beta Let_def)
  show ?thesis
    unfolding g_def [symmetric] jl jw by (simp add: send_email_report_log)
qed

lemma job_log_notification:
  "job_raised (job w d) = None \<Longrightarrow>
     ((ERROR, Error_sending_email) \<in> set (job_log (job w d)) \<longleftrightarrow> \<not> smtp_ok w)
   \<and> (\<forall>f. (ERROR, Error_attaching f) \<in> set (job_log (job w d)) \<longleftrightarrow>
          f \<in> set [''complete_monitoring_report.txt'', ''global_progress.png'',
                   ''progress_per_protein.png'', ''storage_per_protein.png'']
          \<and> f \<notin> set (stale w) \<and> f \<notin> artifact_file ` set (job_written (job w d)))"
proof -
  assume ok: "job_raised (job w d) = None"
  define atts where "atts = [''complete_monitoring_report.txt'', ''global_progress.png'',
           ''progress_per_protein.png'', ''storage_per_protein.png'']"
  have g: "(ERROR, Error_sending_email) \<notin> set (gen_log (generate_monitoring_report_and_plots w d))"
    "(ERROR, Error_attaching f) \<notin> set (gen_log (generate_monitoring_report_and_plots w d))" for f
    using gen_log_messages [of _ w d] by auto
  have "((ERROR, Error_sending_email) \<in> set (job_log (job w d)) \<longleftrightarrow> \<not> smtp_ok w)
   \<and> (\<forall>f. (ERROR, Error_attaching f) \<in> set (job_log (job w d)) \<longleftrightarrow>
          f \<in> set atts
          \<and> f \<notin> set (stale w) \<and> f \<notin> artifact_file ` set (job_written (job w d)))"
    unfolding job_log_returned [OF ok atts_def] using g by auto
  then show ?thesis unfolding atts_def .
qed

text \<open>
  C3, amended. In every iteration in which report generation itself does not raise, the
  loop continues with the next iteration whatever happens in the notification and in the
  trigger query, and these faults are logged: each of the four attachments that is neither
  written by the run nor left by an earlier one is logged as an error and left out, a
  failure to send the message is logged as an error exactly when the SMTP server refuses,
  a failure of the trigger query is logged as an error, and none of them raises.
\<close>

theorem tick_survives_notification_faults:
  "gen_raised (generate_monitoring_report_and_plots (env_request inp) (input_dir a)) = None \<Longrightarrow>
   gen_raised (generate_monitoring_report_and_plots (env_schedule inp) (input_dir a)) = None \<Longrightarrow>
     (\<exists>st'. tick_next (tick a st inp) = Inr st'
         \<and> main_loop a st (inp # inps) = tick a st inp # main_loop a st' inps)
   \<and> (\<forall>w \<in> {env_request inp, env_schedule inp}.
         job_raised (job w (input_dir a)) = None
       \<and> ((ERROR, Error_sending_email) \<in> set (job_log (job w (input_dir a)))
            \<longleftrightarrow> \<not> smtp_ok w)
       \<and> (\<forall>f. (ERROR, Error_attaching f) \<in> set (job_log (job w (input_dir a))) \<longleftrightarrow>
              f \<in> set [''complete_monitoring_report.txt'', ''global_progress.png'',
                       ''progress_per_protein.png'', ''storage_per_protein.png'']
              \<and> f \<notin> set (stale w)
              \<and> f \<notin> artifact_file ` set (job_written (job w (input_dir a)))))
   \<and> ((ERROR, Error_checking_email) \<in> set (tick_log (tick a st inp))
        \<longleftrightarrow> mailbox inp = Imap_fault)"
proof -
  assume g1: "gen_raised (generate_monitoring_report_and_plots (env_request inp) (input_dir a)) = None"
  assume g2: "gen_raised (generate_monitoring_report_and_plots (env_schedule inp) (input_dir a)) = None"
  have j1: "job_raised (job (env_request inp) (input_dir a)) = None"
    using g1 by (simp add: job_raised_gen)
  have j2: "job_raised (job (env_schedule inp) (input_dir a)) = None"
    using g2 by (simp add: job_raised_gen)
  obtain st' where p: "snd (run_pending a st inp) = Inr st'"
    using run_pending_ok [OF j2] by blast
  have n: "tick_next (tick a st inp) = Inr st'"
    using j1 p by (simp add: tick_def Let_def case_prod_beta)
  have l: "(ERROR, Error_checking_email) \<in> set (tick_log (tick a st inp))
      \<longleftrightarrow> mailbox inp = Imap_fault"
    using j1 by (cases "mailbox inp") (simp_all add: tick_def Let_def case_prod_beta)
  have loop: "\<exists>st'. tick_next (tick a st inp) = Inr st'
      \<and> main_loop a st (inp # inps) = tick a st inp # main_loop a st' inps"
    using n by (simp add: Let_def)
  show ?thesis
    using loop j1 j2 l job_log_notification [OF j1] job_log_notification [OF j2] by blast
qed

theorem tick_survives_notification_faults_witness:
  "gen_raised (generate_monitoring_report_and_plots (env_request request_notification_faults)
      (input_dir demo_args)) = None
   \<and> gen_raised (generate_monitoring_report_and_plots (env_schedule request_notification_faults)
      (input_dir demo_args)) = None
   \<and> (ERROR, Error_attaching ''complete_monitoring_report.txt'') \<in>
       set (job_log (job (env_request request_notification_faults) (input_dir demo_args)))
   \<and> (ERROR, Error_sending_email) \<in>
       set (job_log (job (env_request request_notification_faults) (input_dir demo_args)))
   \<and> (\<exists>st'. tick_next (tick demo_args demo_state request_notification_faults) = Inr st')"
proof -
  have f: "get_protein_folders (files no_units_world) [''sims''] = Inr []"
    by (simp add: get_protein_folders_def no_units_world_def endswith_def suffix_to_prefix)
  have g1: "gen_raised (generate_monitoring_report_and_plots
      (env_request request_notification_faults) (input_dir demo_args)) = None"
    using f by (simp add: generate_raises request_notification_faults_def demo_args_def)
  have g2: "gen_raised (generate_monitoring_report_and_plots
      (env_schedule request_notification_faults) (input_dir demo_args)) = None"
    by (simp add: generate_raises request_notification_faults_def demo_args_def demo_world_def
        demo_folders demo_A demo_B)
  have w: "job_written (job (env_request request_notification_faults) (input_dir demo_args)) = []"
    using f by (simp add: job_written_gen generate_outcome request_notification_faults_def
        demo_args_def)
  have s: "\<not> smtp_ok (env_request request_notification_faults)"
    "stale (env_request request_notification_faults) = [''global_progress.png'']"
    by (simp_all add: request_notification_faults_def no_units_world_def)
  from tick_survives_notification_faults [OF g1 g2, of demo_state "[]"] g1 g2 w s
  show ?thesis by auto
qed

end
